theory Spec2Isabelle
  imports Complex_Main "HOL-Library.Log_Nat"
begin

section \<open>Go values used by the exporter\<close>

subsection \<open>Errors and 64-bit integers\<close>

text \<open>
  A Go \<open>error\<close> value is a message.  A run-time panic (here: the dereference of a nil
  pointer) is kept apart from it: it is not returned, it unwinds the goroutine.
\<close>

datatype error = Err string

datatype panic = NilPointerDereference

text \<open>
  \<open>int64\<close> values are held as integers; \<open>is_int64\<close> is the range of the type.  The
  exporter itself only compares, copies and converts them; the arithmetic on them is
  done by the \<open>time\<close> package and is written out there.
\<close>

definition is_int64 :: "int \<Rightarrow> bool" where
  "is_int64 x \<longleftrightarrow> - (2 ^ 63) \<le> x \<and> x < 2 ^ 63"

subsection \<open>float64\<close>

text \<open>
  A \<open>float64\<close> is a finite binary64 number, held as the rational it denotes, or one of
  the three special values.  The two zeros are not told apart: no \<open>float64\<close> of the
  exporter is ever a negative zero (none is the result of a multiplication, of a
  negation of zero or of a rounding of a negative number).

  \<open>round64\<close> is IEEE 754 rounding to nearest, ties to even, of an exact result to
  binary64: 53 significant bits, the exponent of the last bit no smaller than \<open>-1074\<close>,
  overflow to infinity from \<open>2 ^ 1024\<close> on.
\<close>

datatype float64 = Fin rat | PosInf | NegInf | NaN

definition pow2 :: "int \<Rightarrow> rat" where
  "pow2 k = (if 0 \<le> k then 2 ^ nat k else 1 / 2 ^ nat (- k))"

definition round_even :: "rat \<Rightarrow> int" where
  "round_even q =
     (let f = \<lfloor>q\<rfloor>; r = q - of_int f
      in if r < 1 / 2 then f else if 1 / 2 < r then f + 1
         else if even f then f else f + 1)"

definition ilog2 :: "rat \<Rightarrow> int" where
  \<comment> \<open>for \<open>0 < q\<close>: the \<open>k\<close> with \<open>2 ^ k \<le> q < 2 ^ (k + 1)\<close>\<close>
  "ilog2 q =
     (let (a, b) = quotient_of q; k = bitlen a - bitlen b
      in if pow2 k \<le> q then k else k - 1)"

definition round64 :: "rat \<Rightarrow> float64" where
  "round64 q =
     (if q = 0 then Fin 0
      else let a = \<bar>q\<bar>;
               e = max (ilog2 a - 52) (- 1074);
               r = of_int (round_even (a / pow2 e)) * pow2 e
           in if pow2 1024 \<le> r then (if q < 0 then NegInf else PosInf)
              else Fin (if q < 0 then - r else r))"

definition float64_of_int :: "int \<Rightarrow> float64" where
  \<comment> \<open>the conversion \<open>float64(x)\<close> of an \<open>int64\<close>\<close>
  "float64_of_int x = round64 (of_int x)"

fun fneg :: "float64 \<Rightarrow> float64" where
  "fneg (Fin a) = Fin (- a)"
| "fneg PosInf = NegInf"
| "fneg NegInf = PosInf"
| "fneg NaN = NaN"

fun fadd :: "float64 \<Rightarrow> float64 \<Rightarrow> float64" where
  "fadd (Fin a) (Fin b) = round64 (a + b)"
| "fadd NaN _ = NaN"
| "fadd _ NaN = NaN"
| "fadd PosInf NegInf = NaN"
| "fadd NegInf PosInf = NaN"
| "fadd PosInf _ = PosInf"
| "fadd NegInf _ = NegInf"
| "fadd _ PosInf = PosInf"
| "fadd _ NegInf = NegInf"

definition fsub :: "float64 \<Rightarrow> float64 \<Rightarrow> float64" where
  "fsub a b = fadd a (fneg b)"

fun fdiv :: "float64 \<Rightarrow> float64 \<Rightarrow> float64" where
  "fdiv (Fin a) (Fin b) =
     (if b = 0 then (if a = 0 then NaN else if 0 < a then PosInf else NegInf)
      else round64 (a / b))"
| "fdiv NaN _ = NaN"
| "fdiv _ NaN = NaN"
| "fdiv (Fin a) _ = Fin 0"
| "fdiv PosInf (Fin b) = (if b < 0 then NegInf else PosInf)"
| "fdiv NegInf (Fin b) = (if b < 0 then PosInf else NegInf)"
| "fdiv _ _ = NaN"

fun flt :: "float64 \<Rightarrow> float64 \<Rightarrow> bool" where
  \<comment> \<open>the comparison \<open><\<close>, false whenever an operand is NaN\<close>
  "flt (Fin a) (Fin b) = (a < b)"
| "flt NaN _ = False"
| "flt _ NaN = False"
| "flt NegInf NegInf = False"
| "flt NegInf _ = True"
| "flt _ PosInf = True"
| "flt _ _ = False"

subsection \<open>Durations\<close>

text \<open>
  A \<open>time.Duration\<close> is an \<open>int64\<close> count of nanoseconds.  The subtraction of two
  instants saturates at the ends of the type (\<open>Time.Sub\<close>, and \<open>time.Since\<close> through
  it).
\<close>

definition Second :: int where
  "Second = 1000000000"

definition maxDuration :: int where
  "maxDuration = 2 ^ 63 - 1"

definition minDuration :: int where
  "minDuration = - (2 ^ 63)"

definition saturate :: "int \<Rightarrow> int" where
  "saturate d = (if d < minDuration then minDuration
                 else if maxDuration < d then maxDuration else d)"

subsection \<open>Decimal text\<close>

text \<open>
  \<open>strconv.FormatInt(x, 10)\<close>, \<open>fmt.Sprintf("%.2f", x)\<close> and
  \<open>strconv.ParseFloat(s, 64)\<close>.  \<open>%.2f\<close> prints the exact value of the float rounded
  to two decimals, ties to even; \<open>ParseFloat\<close> is modelled on the strings \<open>%.2f\<close>
  prints (sign, digits, point, digits, and the special values); on anything else the
  model returns the error value \<open>0\<close> of the library, as it does for a string that is
  no number.
\<close>

definition digit_char :: "nat \<Rightarrow> char" where
  "digit_char d = ''0123456789'' ! d"

fun digits :: "nat \<Rightarrow> string" where
  "digits n = (if n < 10 then [digit_char n] else digits (n div 10) @ [digit_char (n mod 10)])"

declare digits.simps [simp del]

definition FormatInt :: "int \<Rightarrow> string" where
  "FormatInt x = (if x < 0 then CHR ''-'' # digits (nat (- x)) else digits (nat x))"

definition Sprintf_2f :: "float64 \<Rightarrow> string" where
  "Sprintf_2f x =
     (case x of
        Fin q \<Rightarrow>
          (let n = nat (round_even (\<bar>q\<bar> * 100))
           in (if q < 0 then [CHR ''-''] else []) @ digits (n div 100) @ [CHR ''.''] @
              [digit_char (n mod 100 div 10), digit_char (n mod 10)])
      | PosInf \<Rightarrow> ''Inf''
      | NegInf \<Rightarrow> ''-Inf''
      | NaN \<Rightarrow> ''NaN'')"

definition is_digit :: "char \<Rightarrow> bool" where
  "is_digit c \<longleftrightarrow> c \<in> set ''0123456789''"

definition digit_val :: "char \<Rightarrow> nat" where
  "digit_val c = of_char c - 48"

definition parse_nat :: "string \<Rightarrow> nat" where
  "parse_nat s = foldl (\<lambda>acc c. 10 * acc + digit_val c) 0 s"

definition parse_decimal :: "string \<Rightarrow> rat option" where
  \<comment> \<open>digits, a point, digits\<close>
  "parse_decimal s =
     (let ip = takeWhile (\<lambda>c. c \<noteq> CHR ''.'') s;
          fp = drop (length ip + 1) s
      in if ip \<noteq> [] \<and> fp \<noteq> [] \<and> length ip < length s \<and>
            list_all is_digit ip \<and> list_all is_digit fp
         then Some (of_nat (parse_nat ip) + of_nat (parse_nat fp) / 10 ^ length fp)
         else None)"

definition ParseFloat :: "string \<Rightarrow> float64 \<times> error option" where
  "ParseFloat s =
     (if s = ''Inf'' then (PosInf, None)
      else if s = ''-Inf'' then (NegInf, None)
      else if s = ''NaN'' then (NaN, None)
      else case s of
             [] \<Rightarrow> (Fin 0, Some (Err ''invalid syntax''))
           | c # t \<Rightarrow>
               (if c = CHR ''-''
                then (case parse_decimal t of
                        None \<Rightarrow> (Fin 0, Some (Err ''invalid syntax''))
                      | Some q \<Rightarrow> (round64 (- q), None))
                else (case parse_decimal s of
                        None \<Rightarrow> (Fin 0, Some (Err ''invalid syntax''))
                      | Some q \<Rightarrow> (round64 q, None))))"

subsection \<open>Block times\<close>

text \<open>
  \<open>time.Unix(sec, 0)\<close> holds the instant as \<open>sec + unixToInternal\<close> in an \<open>int64\<close>
  (seconds since year 1), and \<open>t.Sub(u)\<close> is the difference of the two instants in
  nanoseconds, saturated to the range of a Duration.  \<open>d.Seconds()\<close> is
  \<open>float64(d / Second) + float64(d % Second) / 1e9\<close>, with Go's truncating
  division.
\<close>

definition wrap64 :: "int \<Rightarrow> int" where
  "wrap64 x = (x + 2 ^ 63) mod 2 ^ 64 - 2 ^ 63"

definition unixToInternal :: int where
  "unixToInternal = 62135596800"

definition time_Unix :: "int \<Rightarrow> int" where
  "time_Unix sec = wrap64 (sec + unixToInternal)"

definition time_Sub :: "int \<Rightarrow> int \<Rightarrow> int" where
  "time_Sub t u = saturate ((t - u) * Second)"

definition quo :: "int \<Rightarrow> int \<Rightarrow> int" where
  \<comment> \<open>Go's \<open>/\<close> on integers: the quotient truncated toward zero\<close>
  "quo a b = sgn a * sgn b * (\<bar>a\<bar> div \<bar>b\<bar>)"

definition rem :: "int \<Rightarrow> int \<Rightarrow> int" where
  \<comment> \<open>Go's \<open>%\<close>: the remainder has the sign of the dividend\<close>
  "rem a b = a - b * quo a b"

definition Seconds :: "int \<Rightarrow> float64" where
  "Seconds d =
     fadd (float64_of_int (quo d Second))
          (fdiv (float64_of_int (rem d Second)) (Fin 1000000000))"

definition blockTimeDiff :: "int \<Rightarrow> int \<Rightarrow> float64 \<times> string" where
  "blockTimeDiff bt pvt =
     (let t1 = time_Unix bt;
          t2 = time_Unix pvt;
          sub = time_Sub t1 t2;
          diff = Seconds sub;
          diff = (if flt diff (Fin 0) then fneg diff else diff);
          s = Sprintf_2f diff;
          sec = fst (ParseFloat s)
      in (sec, s))"

section \<open>The collector\<close>

subsection \<open>Configuration and replies\<close>

text \<open>The parts of \<open>config.Config\<close> the exporter reads.\<close>

record ValDetails =
  ValidatorName :: string
  PubKey :: string
  VoteKey :: string

record RegularStatusAlerts =
  AlertTimings :: "string list"

record Config =
  ValDetails :: ValDetails
  RegularStatusAlerts :: RegularStatusAlerts

text \<open>
  The replies of the RPC endpoint, with the fields the exporter reads
  (package \<open>types\<close>).  A reply is the Go pair of a value and an error.
\<close>

record EpochInfo =
  Epoch :: int

record VoteAccount =
  ActivatedStake :: int
  Commission :: int
  EpochCredits :: "int list list"
  EpochVoteAccount :: bool
  LastVote :: int
  NodePubkey :: string
  RootSlot :: int
  VotePubkey :: string

record GetVoteAccountsResponse =
  Current :: "VoteAccount list"
  Delinquent :: "VoteAccount list"

type_synonym 'a reply = "'a \<times> error option"

datatype rpc = GetEpochInfo | GetVoteAccounts | GetVersion | GetSlotLeader
  | GetCurrentSlot | GetTxCount

text \<open>
  What the collector does not own is the environment of a run, each part in the order
  the calls are made: the readings of the clock in nanoseconds (\<open>time.Now\<close>) and their
  rendering in UTC with layout \<open>time.Kitchen\<close>; the replies of the RPC endpoint; the
  replies of \<open>querier.AlertStatusCountFromPrometheus\<close>.  Two library functions are
  taken as they are: \<open>kitchen\<close> is \<open>time.Parse\<close> followed by \<open>Format\<close>, both with layout
  \<open>time.Kitchen\<close> (the parse error is dropped by the caller), and \<open>utils.NearestThousandFormat\<close>.
\<close>

record env =
  now_at :: "nat \<Rightarrow> int"
  now_kitchen :: "nat \<Rightarrow> string"
  epoch_reply :: "nat \<Rightarrow> EpochInfo reply"
  accounts_reply :: "nat \<Rightarrow> GetVoteAccountsResponse reply"
  version_reply :: "nat \<Rightarrow> string reply"
  leader_reply :: "nat \<Rightarrow> string reply"
  slot_reply :: "nat \<Rightarrow> int reply"
  tx_reply :: "nat \<Rightarrow> int reply"
  dedup_reply :: "nat \<Rightarrow> string reply"
  kitchen :: "string \<Rightarrow> string"
  NearestThousandFormat :: "float64 \<Rightarrow> string"

subsection \<open>State and effects\<close>

datatype desc = totalValidatorsDesc | validatorActivatedStake | validatorLastVote
  | validatorRootSlot | validatorDelinquent | solanaVersion | slotLeader | currentSlot
  | commission | delinqentCommission | validatorVote | statusAlertCount | txCount
  | netVoteHeight | valVoteHeight | voteHeightDiff | valVotingStatus | voteCredits
  | networkVoteCredits

datatype metric =
  ConstMetric desc float64 "string list"  \<comment> \<open>\<open>prometheus.MustNewConstMetric\<close>, a gauge\<close>
| InvalidMetric desc error  \<comment> \<open>\<open>prometheus.NewInvalidMetric\<close>\<close>

datatype channel = Telegram | Email | Slack

text \<open>
  The state holds the two cache fields of \<open>solanaCollector\<close> and, as logs, every effect
  of a run: the metrics sent on the channel \<open>ch\<close>, the alerts handed to the three
  senders of package \<open>alerter\<close>, the RPC calls issued, and how many times the clock and
  the dedup signal have been read.  The calls to \<open>log.Printf\<close> are left out.
\<close>

record state =
  cachedEpochInfo :: "EpochInfo option"
  cachedEpochTime :: int
  clock_reads :: nat
  rpcs :: "rpc list"
  dedup_queries :: nat
  ch :: "metric list"
  alerts :: "(channel \<times> string) list"

definition calls :: "state \<Rightarrow> rpc \<Rightarrow> nat" where
  "calls s k = count_list (rpcs s) k"

definition issue :: "rpc \<Rightarrow> state \<Rightarrow> state" where
  "issue k s = s\<lparr>rpcs := rpcs s @ [k]\<rparr>"

definition tick :: "state \<Rightarrow> state" where
  "tick s = s\<lparr>clock_reads := Suc (clock_reads s)\<rparr>"

definition emit :: "metric \<Rightarrow> state \<Rightarrow> state" where
  "emit m s = s\<lparr>ch := ch s @ [m]\<rparr>"

definition send :: "channel \<Rightarrow> string \<Rightarrow> state \<Rightarrow> state" where
  "send c msg s = s\<lparr>alerts := alerts s @ [(c, msg)]\<rparr>"

subsection \<open>\<open>getCachedEpochInfo\<close>\<close>

definition time_Since :: "int \<Rightarrow> int \<Rightarrow> int" where
  \<comment> \<open>\<open>time.Since(t)\<close> at the clock reading \<open>now\<close>\<close>
  "time_Since now t = saturate (now - t)"

definition refresh :: "env \<Rightarrow> state \<Rightarrow> (EpochInfo option \<times> error option) \<times> state" where
  \<comment> \<open>lines 593 to 600: the query and, when it succeeds, the two assignments\<close>
  "refresh env s =
     (let (epochInfo, err) = epoch_reply env (calls s GetEpochInfo);
          s1 = issue GetEpochInfo s
      in case err of
           Some e \<Rightarrow> ((None, Some e), s1)
         | None \<Rightarrow>
             ((Some epochInfo, None),
              tick (s1\<lparr>cachedEpochInfo := Some epochInfo,
                        cachedEpochTime := now_at env (clock_reads s1)\<rparr>)))"

definition getCachedEpochInfo :: "env \<Rightarrow> state \<Rightarrow> (EpochInfo option \<times> error option) \<times> state" where
  "getCachedEpochInfo env s =
     (case cachedEpochInfo s of
        None \<Rightarrow> refresh env s
      | Some cached \<Rightarrow>
          if time_Since (now_at env (clock_reads s)) (cachedEpochTime s) < 30 * Second
          then ((Some cached, None), tick s)
          else refresh env (tick s))"

subsection \<open>\<open>calcualteEpochVoteCredits\<close>\<close>

fun scan_credits :: "int \<Rightarrow> int list list \<Rightarrow> int \<times> int" where
  \<comment> \<open>the loop of lines 386 to 394; both results start at zero\<close>
  "scan_credits epoch [] = (0, 0)"
| "scan_credits epoch (c # credits) =
     (if 3 \<le> length c \<and> c ! 0 = epoch then (c ! 1, c ! 2)
      else scan_credits epoch credits)"

definition calcualteEpochVoteCredits ::
  "env \<Rightarrow> int list list \<Rightarrow> state \<Rightarrow> panic + ((float64 \<times> float64) \<times> state)" where
  "calcualteEpochVoteCredits env credits s =
     (let ((epochInfo, err), s1) = getCachedEpochInfo env s
      in case epochInfo of
           None \<Rightarrow> Inl NilPointerDereference
         | Some info \<Rightarrow>
             (let (currentCredits, previousCredits) = scan_credits (Epoch info) credits
              in Inr ((float64_of_int currentCredits, float64_of_int previousCredits), s1)))"

subsection \<open>\<open>AlertValidatorStatus\<close>\<close>

text \<open>
  The second loop of the function (lines 419 to 444), over the normalised time slots.
  \<open>count\<close> is the local \<open>float64\<close> counter.  A slot that equals the current time asks
  the dedup signal; the error of the reply is dropped.  The branch that sends goes on
  with the next slot; the other branch returns.
\<close>

fun alert_slots :: "env \<Rightarrow> string \<Rightarrow> string \<Rightarrow> string list \<Rightarrow> float64 \<Rightarrow> state \<Rightarrow> state" where
  "alert_slots env msg currentTime [] count s = s"
| "alert_slots env msg currentTime (statusAlertTime # rest) count s =
     (if currentTime = statusAlertTime
      then (let (alreadySentAlert, err) = dedup_reply env (dedup_queries s);
                s1 = s\<lparr>dedup_queries := Suc (dedup_queries s)\<rparr>
            in if alreadySentAlert = ''false''
               then (let s2 = send Slack msg (send Email msg (send Telegram msg s1));
                         s3 = emit (ConstMetric statusAlertCount count [''true'']) s2
                     in alert_slots env msg currentTime rest (fadd count (Fin 1)) s3)
               else emit (ConstMetric statusAlertCount count [''false'']) s1)
      else alert_slots env msg currentTime rest count s)"

definition AlertValidatorStatus :: "env \<Rightarrow> Config \<Rightarrow> string \<Rightarrow> state \<Rightarrow> state" where
  "AlertValidatorStatus env config msg s =
     (let currentTime = now_kitchen env (clock_reads s);
          s1 = tick s;
          alertsArray = map (kitchen env) (AlertTimings (RegularStatusAlerts config))
      in alert_slots env msg currentTime alertsArray (Fin 0) s1)"

subsection \<open>\<open>mustEmitMetrics\<close>\<close>

definition tracked :: "Config \<Rightarrow> VoteAccount \<Rightarrow> bool" where
  \<comment> \<open>\<open>account.NodePubkey == c.config.ValDetails.PubKey\<close>\<close>
  "tracked config account \<longleftrightarrow> NodePubkey account = PubKey (ValDetails config)"

fun emit_last_votes :: "Config \<Rightarrow> VoteAccount list \<Rightarrow> state \<Rightarrow> state" where
  \<comment> \<open>lines 249 to 258\<close>
  "emit_last_votes config [] s = s"
| "emit_last_votes config (account # accounts) s =
     emit_last_votes config accounts
       (if tracked config account
        then emit (ConstMetric validatorRootSlot (float64_of_int (RootSlot account))
                     [VotePubkey account, NodePubkey account])
               (emit (ConstMetric validatorLastVote (float64_of_int (LastVote account))
                        [VotePubkey account, NodePubkey account]) s)
        else s)"

fun network_last_vote :: "Config \<Rightarrow> VoteAccount list \<Rightarrow> float64" where
  \<comment> \<open>lines 270 to 276: \<open>netresult\<close>, zero unless a record of the validator is found\<close>
  "network_last_vote config [] = Fin 0"
| "network_last_vote config (vote # votes) =
     (if tracked config vote then float64_of_int (LastVote vote)
      else network_last_vote config votes)"

definition emit_tracked ::
  "env \<Rightarrow> Config \<Rightarrow> float64 \<Rightarrow> VoteAccount \<Rightarrow> float64 \<Rightarrow> float64 \<Rightarrow> state \<Rightarrow> state" where
  \<comment> \<open>lines 290 to 329, for a record of the tracked validator\<close>
  "emit_tracked env config netresult vote cCredits pCredits s =
     (let v = FormatInt (Commission vote);
          epochvote = (if EpochVoteAccount vote then Fin 1 else Fin 0);
          s = emit (ConstMetric validatorVote epochvote [''current'']) s;
          s = emit (ConstMetric commission (float64_of_int (Commission vote)) [v]) s;
          s = emit (ConstMetric validatorDelinquent (Fin 0) [VotePubkey vote, NodePubkey vote]) s;
          stake = fdiv (float64_of_int (ActivatedStake vote)) (Fin 1000000000);
          s = emit (ConstMetric validatorActivatedStake stake [VotePubkey vote, NodePubkey vote]) s;
          s = (if \<not> EpochVoteAccount vote \<and> ActivatedStake vote \<le> 0
               then emit (ConstMetric valVotingStatus (Fin 0) [''Jailed''])
                      (AlertValidatorStatus env config ''Solana validator is NOT VOTING'' s)
               else emit (ConstMetric valVotingStatus (Fin 1) [''Voting''])
                      (AlertValidatorStatus env config ''Solana validator is VOTING'' s));
          valresult = float64_of_int (LastVote vote);
          s = emit (ConstMetric valVoteHeight valresult [''validator'']) s;
          s = emit (ConstMetric netVoteHeight netresult [''network'']) s;
          diff = fsub netresult valresult;
          s = emit (ConstMetric voteHeightDiff diff [''vote height difference'']) s;
          s = emit (ConstMetric voteCredits cCredits [''current'']) s;
          s = emit (ConstMetric voteCredits pCredits [''previous'']) s
      in s)"

text \<open>
  The running sums and the two counters of lines 278 and 279.  The counters are
  \<open>int64\<close>; they count records of one reply and stay far below \<open>2 ^ 63\<close>.
\<close>

record running =
  runningCurrentCredits :: float64
  runningPreviousCredits :: float64
  currentCreditsCount :: int
  previousCreditsCount :: int

definition add_credits :: "float64 \<Rightarrow> float64 \<Rightarrow> running \<Rightarrow> running" where
  \<comment> \<open>lines 283 to 288\<close>
  "add_credits cCredits pCredits r =
     (if cCredits \<noteq> Fin 0 \<and> pCredits \<noteq> Fin 0
      then \<lparr> runningCurrentCredits = fadd (runningCurrentCredits r) cCredits,
             runningPreviousCredits = fadd (runningPreviousCredits r) pCredits,
             currentCreditsCount = currentCreditsCount r + 1,
             previousCreditsCount = previousCreditsCount r + 1 \<rparr>
      else r)"

fun current_votes ::
  "env \<Rightarrow> Config \<Rightarrow> float64 \<Rightarrow> VoteAccount list \<Rightarrow> running \<Rightarrow> state \<Rightarrow> panic + (running \<times> state)" where
  \<comment> \<open>the loop of lines 281 to 331\<close>
  "current_votes env config netresult [] r s = Inr (r, s)"
| "current_votes env config netresult (vote # votes) r s =
     (case calcualteEpochVoteCredits env (EpochCredits vote) s of
        Inl p \<Rightarrow> Inl p
      | Inr ((cCredits, pCredits), s1) \<Rightarrow>
          current_votes env config netresult votes (add_credits cCredits pCredits r)
            (if tracked config vote
             then emit_tracked env config netresult vote cCredits pCredits s1
             else s1))"

fun delinquent_votes :: "Config \<Rightarrow> VoteAccount list \<Rightarrow> state \<Rightarrow> state" where
  \<comment> \<open>the loop of lines 339 to 373\<close>
  "delinquent_votes config [] s = s"
| "delinquent_votes config (vote # votes) s =
     delinquent_votes config votes
       (if tracked config vote
        then (let v = FormatInt (Commission vote);
                  s = emit (ConstMetric delinqentCommission (float64_of_int (Commission vote)) [v]) s;
                  s = emit (ConstMetric validatorDelinquent (Fin 1) [VotePubkey vote, NodePubkey vote]) s;
                  s = send Telegram ''Your solana validator is in DELINQUENT state'' s;
                  s = send Email ''Your solana validator is in DELINQUNET state'' s;
                  s = send Slack ''Your solana validator is in DELINQUENT state'' s
              in s)
        else s)"

definition zero_running :: running where
  "zero_running = \<lparr> runningCurrentCredits = Fin 0, runningPreviousCredits = Fin 0,
                     currentCreditsCount = 0, previousCreditsCount = 0 \<rparr>"

definition emit_averages :: "running \<Rightarrow> state \<Rightarrow> state" where
  \<comment> \<open>lines 333 to 336\<close>
  "emit_averages r s =
     (let avgCurrentCredits = fdiv (runningCurrentCredits r) (float64_of_int (currentCreditsCount r));
          avgPreviousCredits = fdiv (runningPreviousCredits r) (float64_of_int (previousCreditsCount r));
          s = emit (ConstMetric networkVoteCredits avgCurrentCredits [''current'']) s;
          s = emit (ConstMetric networkVoteCredits avgPreviousCredits [''previous'']) s
      in s)"

definition mustEmitMetrics ::
  "env \<Rightarrow> Config \<Rightarrow> GetVoteAccountsResponse \<Rightarrow> state \<Rightarrow> panic + state" where
  "mustEmitMetrics env config response s =
     (let s = emit (ConstMetric totalValidatorsDesc
                      (float64_of_int (int (length (Delinquent response)))) [''delinquent'']) s;
          s = emit (ConstMetric totalValidatorsDesc
                      (float64_of_int (int (length (Current response)))) [''current'']) s;
          s = emit_last_votes config (Current response @ Delinquent response) s;
          s = snd (getCachedEpochInfo env s);
          netresult = network_last_vote config (Current response)
      in case current_votes env config netresult (Current response) zero_running s of
           Inl p \<Rightarrow> Inl p
         | Inr (r, s) \<Rightarrow> Inr (delinquent_votes config (Delinquent response) (emit_averages r s)))"

subsection \<open>\<open>Collect\<close>\<close>

definition collect_accounts :: "env \<Rightarrow> Config \<Rightarrow> state \<Rightarrow> panic + state" where
  \<comment> \<open>lines 462 to 471\<close>
  "collect_accounts env config s =
     (let (accs, err) = accounts_reply env (calls s GetVoteAccounts);
          s = issue GetVoteAccounts s
      in case err of
           Some e \<Rightarrow>
             Inr (emit (InvalidMetric validatorDelinquent e)
                   (emit (InvalidMetric validatorRootSlot e)
                     (emit (InvalidMetric validatorLastVote e)
                       (emit (InvalidMetric validatorActivatedStake e)
                         (emit (InvalidMetric totalValidatorsDesc e) s)))))
         | None \<Rightarrow> mustEmitMetrics env config accs s)"

definition collect_version :: "env \<Rightarrow> state \<Rightarrow> state" where
  \<comment> \<open>lines 474 to 477; the error is not looked at\<close>
  "collect_version env s =
     (let (version, err) = version_reply env (calls s GetVersion);
          s = issue GetVersion s
      in if version \<noteq> [] then emit (ConstMetric solanaVersion (Fin 1) [version]) s else s)"

definition collect_leader :: "env \<Rightarrow> state \<Rightarrow> state" where
  \<comment> \<open>lines 495 to 502\<close>
  "collect_leader env s =
     (let (leader, err) = leader_reply env (calls s GetSlotLeader);
          s = issue GetSlotLeader s
      in case err of
           Some e \<Rightarrow> emit (InvalidMetric slotLeader e) s
         | None \<Rightarrow> if leader \<noteq> [] then emit (ConstMetric slotLeader (Fin 1) [leader]) s else s)"

definition collect_slot :: "env \<Rightarrow> state \<Rightarrow> state" where
  \<comment> \<open>lines 505 to 511; a failure is logged only\<close>
  "collect_slot env s =
     (let (slot, err) = slot_reply env (calls s GetCurrentSlot);
          s = issue GetCurrentSlot s
      in case err of
           Some e \<Rightarrow> s
         | None \<Rightarrow> emit (ConstMetric currentSlot (float64_of_int slot) [FormatInt slot]) s)"

definition collect_tx :: "env \<Rightarrow> state \<Rightarrow> state" where
  \<comment> \<open>lines 514 to 516; the error is dropped\<close>
  "collect_tx env s =
     (let (count, err) = tx_reply env (calls s GetTxCount);
          s = issue GetTxCount s;
          txcount = NearestThousandFormat env (float64_of_int count)
      in emit (ConstMetric txCount (float64_of_int count) [txcount]) s)"

definition Collect :: "env \<Rightarrow> Config \<Rightarrow> state \<Rightarrow> panic + state" where
  "Collect env config s =
     (case collect_accounts env config s of
        Inl p \<Rightarrow> Inl p
      | Inr s \<Rightarrow> Inr (collect_tx env (collect_slot env (collect_leader env (collect_version env s)))))"

section \<open>Runs and example inputs\<close>

text \<open>\<open>n\<close> lookups of the epoch info in a row, with their results.\<close>

fun lookups :: "env \<Rightarrow> nat \<Rightarrow> state \<Rightarrow> (EpochInfo option \<times> error option) list \<times> state" where
  "lookups env 0 s = ([], s)"
| "lookups env (Suc n) s =
     (let (r, s1) = getCachedEpochInfo env s;
          (rs, s2) = lookups env n s1
      in (r # rs, s2))"

text \<open>
  A collector that has just started, and an environment in which the clock is read
  once a second, it is 10:00AM, every query succeeds, the epoch is 101 and the dedup
  signal says \<open>false\<close>.  In \<open>failing_env\<close> the epoch-info query fails.
\<close>

definition cold :: state where
  "cold = \<lparr> cachedEpochInfo = None, cachedEpochTime = 0, clock_reads = 0, rpcs = [],
            dedup_queries = 0, ch = [], alerts = [] \<rparr>"

definition no_accounts :: GetVoteAccountsResponse where
  "no_accounts = \<lparr> Current = [], Delinquent = [] \<rparr>"

definition example_env :: env where
  "example_env =
     \<lparr> now_at = (\<lambda>k. 1000000000 * int k),
       now_kitchen = (\<lambda>k. ''10:00AM''),
       epoch_reply = (\<lambda>k. (\<lparr> Epoch = 101 \<rparr>, None)),
       accounts_reply = (\<lambda>k. (no_accounts, None)),
       version_reply = (\<lambda>k. (''1.18.26'', None)),
       leader_reply = (\<lambda>k. (''leader'', None)),
       slot_reply = (\<lambda>k. (250000000, None)),
       tx_reply = (\<lambda>k. (42000, None)),
       dedup_reply = (\<lambda>k. (''false'', None)),
       kitchen = (\<lambda>value. value),
       NearestThousandFormat = Sprintf_2f \<rparr>"

definition failing_env :: env where
  "failing_env = example_env \<lparr> epoch_reply := (\<lambda>k. (\<lparr> Epoch = 0 \<rparr>, Some (Err ''timeout''))) \<rparr>"

text \<open>
  The tracked validator is \<open>node1\<close>; alerts are due at 10:00AM and 10:05AM.
\<close>

definition example_config :: Config where
  "example_config =
     \<lparr> ValDetails = \<lparr> ValidatorName = ''validator'', PubKey = ''node1'', VoteKey = ''vote1'' \<rparr>,
       RegularStatusAlerts = \<lparr> AlertTimings = [''10:00AM'', ''10:05AM''] \<rparr> \<rparr>"

definition example_account :: VoteAccount where
  "example_account =
     \<lparr> ActivatedStake = 5000000000, Commission = 10,
       EpochCredits = [[100, 50, 40], [101, 60, 50]], EpochVoteAccount = True,
       LastVote = 5, NodePubkey = ''node1'', RootSlot = 3, VotePubkey = ''vote1'' \<rparr>"

text \<open>\<open>credit_entry\<close>: a tuple of the \<open>epochCredits\<close> sequence that is about the epoch.\<close>

definition credit_entry :: "int \<Rightarrow> int list \<Rightarrow> bool" where
  "credit_entry epoch c \<longleftrightarrow> 3 \<le> length c \<and> c ! 0 = epoch"

text \<open>\<open>later_env\<close>: the same environment in epoch 999.\<close>

definition later_env :: env where
  "later_env = example_env \<lparr> epoch_reply := (\<lambda>k. (\<lparr> Epoch = 999 \<rparr>, None)) \<rparr>"

text \<open>
  \<open>crash_env\<close>: the epoch-info query fails and the vote-accounts reply holds the record
  of the tracked validator.
\<close>

definition crash_env :: env where
  "crash_env = failing_env
     \<lparr> accounts_reply := (\<lambda>k. (\<lparr> Current = [example_account], Delinquent = [] \<rparr>, None)) \<rparr>"

text \<open>
  One round of dispatch: the message handed to each of the three senders, in the order
  of the code.  \<open>many_false env q m\<close>: the replies number \<open>q\<close> to \<open>q + m - 1\<close> of the
  dedup signal all read \<open>false\<close>.
\<close>

definition dispatch :: "string \<Rightarrow> (channel \<times> string) list" where
  "dispatch msg = [(Telegram, msg), (Email, msg), (Slack, msg)]"


definition sent_env :: env where
  "sent_env = example_env \<lparr> dedup_reply := (\<lambda>k. (''true'', None)) \<rparr>"

definition twice_config :: Config where
  "twice_config = example_config
     \<lparr> RegularStatusAlerts := \<lparr> AlertTimings = [''10:00AM'', ''10:00AM''] \<rparr> \<rparr>"

definition many_false :: "env \<Rightarrow> nat \<Rightarrow> nat \<Rightarrow> bool" where
  "many_false env q m \<longleftrightarrow> list_all (\<lambda>k. fst (dedup_reply env (q + k)) = ''false'') [0..<m]"

text \<open>
  Reading the logs: the metrics of one descriptor, the RPC calls other than the
  epoch-info query, and the vote-height difference as lines 321 to 325 emit it.
\<close>

fun metric_desc :: "metric \<Rightarrow> desc" where
  "metric_desc (ConstMetric d v labels) = d"
| "metric_desc (InvalidMetric d e) = d"

definition of_desc :: "desc \<Rightarrow> metric list \<Rightarrow> metric list" where
  "of_desc d ms = filter (\<lambda>m. metric_desc m = d) ms"

definition other_rpcs :: "state \<Rightarrow> rpc list" where
  "other_rpcs s = filter (\<lambda>k. k \<noteq> GetEpochInfo) (rpcs s)"

definition height_diff :: "float64 \<Rightarrow> VoteAccount \<Rightarrow> metric" where
  "height_diff netresult vote =
     ConstMetric voteHeightDiff (fsub netresult (float64_of_int (LastVote vote)))
       [''vote height difference'']"

text \<open>
  The credits of a record in epoch \<open>e\<close>, as the lookup returns them; a reply with two
  current records of the tracked validator, last votes 5 and 7.
\<close>

definition epoch_credits :: "int \<Rightarrow> VoteAccount \<Rightarrow> float64 \<times> float64" where
  "epoch_credits e v =
     (float64_of_int (fst (scan_credits e (EpochCredits v))),
      float64_of_int (snd (scan_credits e (EpochCredits v))))"

definition two_accounts :: GetVoteAccountsResponse where
  "two_accounts =
     \<lparr> Current = [example_account, example_account \<lparr> LastVote := 7, VotePubkey := ''vote2'' \<rparr>],
       Delinquent = [] \<rparr>"

text \<open>
  The metrics of the four queries that follow the vote accounts in a cycle, read off
  the replies the cycle gets when it starts in \<open>s\<close>: the version when it is not empty;
  the slot leader, or its invalid metric; the current slot unless its query fails; the
  transaction count.
\<close>

definition other_metrics :: "env \<Rightarrow> state \<Rightarrow> metric list" where
  "other_metrics env s =
     (let (version, verr) = version_reply env (calls s GetVersion);
          (leader, lerr) = leader_reply env (calls s GetSlotLeader);
          (slot, serr) = slot_reply env (calls s GetCurrentSlot);
          (count, cerr) = tx_reply env (calls s GetTxCount)
      in (if version \<noteq> [] then [ConstMetric solanaVersion (Fin 1) [version]] else []) @
         (case lerr of
            Some e \<Rightarrow> [InvalidMetric slotLeader e]
          | None \<Rightarrow> if leader \<noteq> [] then [ConstMetric slotLeader (Fin 1) [leader]] else []) @
         (case serr of
            Some e \<Rightarrow> []
          | None \<Rightarrow> [ConstMetric currentSlot (float64_of_int slot) [FormatInt slot]]) @
         [ConstMetric txCount (float64_of_int count)
            [NearestThousandFormat env (float64_of_int count)]])"

text \<open>\<open>accounts_down_env\<close>: the vote-accounts query fails.\<close>

definition accounts_down_env :: env where
  "accounts_down_env = example_env
     \<lparr> accounts_reply := (\<lambda>k. (no_accounts, Some (Err ''timeout''))) \<rparr>"

text \<open>
  The network average in the words of the specification: the current and previous
  credits of a record in epoch \<open>e\<close>; the records that qualify, both credits being
  nonzero; and the mean of a list of \<open>float64\<close>, the sum taken from the left and
  divided by the length.
\<close>

definition current_int :: "int \<Rightarrow> VoteAccount \<Rightarrow> int" where
  "current_int e v = fst (scan_credits e (EpochCredits v))"

definition previous_int :: "int \<Rightarrow> VoteAccount \<Rightarrow> int" where
  "previous_int e v = snd (scan_credits e (EpochCredits v))"

definition qualifies :: "int \<Rightarrow> VoteAccount \<Rightarrow> bool" where
  "qualifies e v \<longleftrightarrow> current_int e v \<noteq> 0 \<and> previous_int e v \<noteq> 0"

definition fsum :: "float64 list \<Rightarrow> float64" where
  "fsum xs = foldl fadd (Fin 0) xs"

definition float_mean :: "float64 list \<Rightarrow> float64" where
  "float_mean xs = fdiv (fsum xs) (float64_of_int (int (length xs)))"

section \<open>Facts about \<open>float64\<close>\<close>

lemma pow2_pos [simp]: "0 < pow2 k"
  by (simp add: pow2_def)

lemma pow2_nat: "0 \<le> k \<Longrightarrow> pow2 k = 2 ^ nat k"
  by (simp add: pow2_def)

lemma pow2_neg: "k \<le> 0 \<Longrightarrow> pow2 k = 1 / 2 ^ nat (- k)"
  by (cases "k = 0") (simp_all add: pow2_def)

lemma round_even_of_int [simp]: "round_even (of_int m) = m"
  by (simp add: round_even_def)

lemma ilog2_of_int:
  assumes "0 < n"
  shows "ilog2 (of_int n) = bitlen n - 1"
proof -
  have b: "1 \<le> bitlen n" using assms by (simp add: bitlen_alt_def)
  have "(2::int) ^ nat (bitlen n - 1) \<le> n" using bitlen_bounds [OF assms] by simp
  then have "(of_int ((2::int) ^ nat (bitlen n - 1)) :: rat) \<le> of_int n"
    by (simp only: of_int_le_iff)
  then have "pow2 (bitlen n - 1) \<le> of_int n" using b by (simp add: pow2_nat)
  moreover have "bitlen 1 = 1" by (simp add: bitlen_alt_def)
  ultimately show ?thesis by (simp add: ilog2_def)
qed

lemma round64_scaled:
  assumes "e \<le> 0"
  shows "of_int (round_even (of_int n / pow2 e)) * pow2 e = (of_int n :: rat)"
proof -
  have "of_int n / pow2 e = (of_int (n * 2 ^ nat (- e)) :: rat)"
    using assms by (simp add: pow2_neg)
  then have "round_even (of_int n / pow2 e) = n * 2 ^ nat (- e)"
    by (simp only: round_even_of_int)
  then show ?thesis using assms by (simp add: pow2_neg)
qed

lemma round64_pos_int:
  assumes "0 < n" and "n < 2 ^ 53"
  shows "round64 (of_int n) = Fin (of_int n)"
proof -
  have "bitlen n \<le> 53" using assms by (simp add: bitlen_le_iff_power)
  then have e: "max (ilog2 (of_int n) - 52) (- 1074) \<le> 0"
    using assms by (simp add: ilog2_of_int)
  have "(of_int n :: rat) < of_int (2 ^ 53)" using assms(2) by (simp only: of_int_less_iff)
  also have "\<dots> < pow2 1024" by (simp add: pow2_def)
  finally have lt: "(of_int n :: rat) < pow2 1024" .
  have r: "of_int (round_even (of_int n / pow2 (max (ilog2 (of_int n) - 52) (- 1074)))) *
             pow2 (max (ilog2 (of_int n) - 52) (- 1074)) = (of_int n :: rat)"
    by (rule round64_scaled [OF e])
  show ?thesis using assms(1) lt
    by (simp add: round64_def Let_def r del: of_int_less_iff)
qed

lemma round64_neg: "round64 (- q) = fneg (round64 q)"
  by (simp add: round64_def Let_def)

lemma round64_of_int:
  assumes "\<bar>n\<bar> < 2 ^ 53"
  shows "round64 (of_int n) = Fin (of_int n)"
proof -
  consider "n = 0" | "0 < n" | "n < 0" by linarith
  then show ?thesis
  proof cases
    case 1 then show ?thesis by (simp add: round64_def)
  next
    case 2 then show ?thesis using assms by (simp add: round64_pos_int)
  next
    case 3
    then have "round64 (of_int (- n)) = Fin (of_int (- n))"
      using assms by (intro round64_pos_int) auto
    then have "fneg (round64 (of_int n)) = Fin (- of_int n)" by (simp add: round64_neg)
    then show ?thesis by (cases "round64 (of_int n)") auto
  qed
qed

lemma float64_of_small_int: "\<bar>n\<bar> < 2 ^ 53 \<Longrightarrow> float64_of_int n = Fin (of_int n)"
  by (simp add: float64_of_int_def round64_of_int)

section \<open>The cache of the epoch info\<close>

lemma saturate_less: "d < 30 * Second \<Longrightarrow> saturate d < 30 * Second"
  by (simp add: saturate_def Second_def minDuration_def maxDuration_def)

lemma calls_simps [simp]:
  "calls (tick s) k = calls s k"
  "calls (emit m s) k = calls s k"
  "calls (send c msg s) k = calls s k"
  "calls (issue k' s) k = (if k = k' then Suc (calls s k) else calls s k)"
  by (auto simp: calls_def tick_def emit_def send_def issue_def)

lemma cache_hit:
  assumes "cachedEpochInfo s = Some v"
    and "now_at env (clock_reads s) - cachedEpochTime s < 30 * Second"
  shows "getCachedEpochInfo env s = ((Some v, None), tick s)"
  using assms by (simp add: getCachedEpochInfo_def time_Since_def saturate_less)

lemma lookups_hits:
  assumes "cachedEpochInfo s = Some v"
    and "\<forall>k. clock_reads s \<le> k \<longrightarrow> k < clock_reads s + n \<longrightarrow>
           now_at env k - cachedEpochTime s < 30 * Second"
  shows "lookups env n s = (replicate n (Some v, None), s\<lparr>clock_reads := clock_reads s + n\<rparr>)"
  using assms
proof (induction n arbitrary: s)
  case 0
  then show ?case by simp
next
  case (Suc n)
  have h: "getCachedEpochInfo env s = ((Some v, None), tick s)"
    using Suc.prems by (intro cache_hit) auto
  have "lookups env n (tick s) =
          (replicate n (Some v, None), (tick s)\<lparr>clock_reads := clock_reads (tick s) + n\<rparr>)"
    using Suc.prems by (intro Suc.IH) (auto simp: tick_def)
  then show ?case using h by (simp add: tick_def)
qed

lemma lookup_success:
  assumes "getCachedEpochInfo env s0 = ((Some v, None), s)"
  shows "cachedEpochInfo s = Some v \<and> calls s GetEpochInfo \<le> calls s0 GetEpochInfo + 1"
  using assms
  by (auto simp: getCachedEpochInfo_def refresh_def Let_def tick_def issue_def calls_def
      split: option.splits if_splits prod.splits)

text \<open>
  C5.  After a lookup that returned the epoch info \<open>v\<close> (from the cache or from a fetch
  that succeeded), take any number \<open>n\<close> of further lookups whose clock readings are all
  less than 30 seconds after the time kept with the entry.  Each of them returns \<open>v\<close>,
  none of them issues a query, so the whole sequence, the first lookup included, has
  issued at most one epoch-info query.
\<close>

theorem cache_window_one_query:
  assumes first: "getCachedEpochInfo env s0 = ((Some v, None), s)"
    and window: "\<forall>k. clock_reads s \<le> k \<longrightarrow> k < clock_reads s + n \<longrightarrow>
           now_at env k - cachedEpochTime s < 30 * Second"
  shows "fst (lookups env n s) = replicate n (Some v, None) \<and>
         rpcs (snd (lookups env n s)) = rpcs s \<and>
         calls (snd (lookups env n s)) GetEpochInfo \<le> calls s0 GetEpochInfo + 1"
proof -
  from lookup_success [OF first] have c: "cachedEpochInfo s = Some v"
    and q: "calls s GetEpochInfo \<le> calls s0 GetEpochInfo + 1" by auto
  from lookups_hits [OF c window] q show ?thesis by (simp add: calls_def)
qed

theorem cache_window_one_query_witness:
  "getCachedEpochInfo example_env cold =
     ((Some \<lparr> Epoch = 101 \<rparr>, None), snd (getCachedEpochInfo example_env cold)) \<and>
   fst (lookups example_env 3 (snd (getCachedEpochInfo example_env cold))) =
     replicate 3 (Some \<lparr> Epoch = 101 \<rparr>, None) \<and>
   calls (snd (lookups example_env 3 (snd (getCachedEpochInfo example_env cold)))) GetEpochInfo \<le> 1"
proof -
  let ?s = "snd (getCachedEpochInfo example_env cold)"
  have first: "getCachedEpochInfo example_env cold = ((Some \<lparr> Epoch = 101 \<rparr>, None), ?s)"
    by (simp add: getCachedEpochInfo_def refresh_def cold_def example_env_def calls_def Let_def)
  have s: "cachedEpochTime ?s = 0" "clock_reads ?s = 1"
    by (simp_all add: getCachedEpochInfo_def refresh_def cold_def example_env_def calls_def
        issue_def tick_def Let_def)
  have window: "\<forall>k. clock_reads ?s \<le> k \<longrightarrow> k < clock_reads ?s + 3 \<longrightarrow>
           now_at example_env k - cachedEpochTime ?s < 30 * Second"
    by (simp only: s) (simp add: example_env_def Second_def)
  have "calls cold GetEpochInfo = 0" by (simp add: calls_def cold_def)
  with cache_window_one_query [OF first window] first show ?thesis by simp
qed

text \<open>
  C6.  A lookup that misses (no entry, or an entry of 30 seconds or more) and whose
  query fails returns the error and no value; the entry and its time stay as they
  were.
\<close>

theorem failed_refresh_keeps_entry:
  assumes miss: "cachedEpochInfo s = None \<or>
                 30 * Second \<le> time_Since (now_at env (clock_reads s)) (cachedEpochTime s)"
    and fail: "snd (epoch_reply env (calls s GetEpochInfo)) = Some e"
  shows "fst (getCachedEpochInfo env s) = (None, Some e) \<and>
         cachedEpochInfo (snd (getCachedEpochInfo env s)) = cachedEpochInfo s \<and>
         cachedEpochTime (snd (getCachedEpochInfo env s)) = cachedEpochTime s \<and>
         calls (snd (getCachedEpochInfo env s)) GetEpochInfo = Suc (calls s GetEpochInfo)"
  using assms
  by (auto simp: getCachedEpochInfo_def refresh_def Let_def tick_def issue_def calls_def
      split: option.splits if_splits prod.splits)

theorem failed_refresh_keeps_entry_witness:
  "cachedEpochInfo cold = None \<and>
   snd (epoch_reply failing_env (calls cold GetEpochInfo)) = Some (Err ''timeout'') \<and>
   fst (getCachedEpochInfo failing_env cold) = (None, Some (Err ''timeout'')) \<and>
   cachedEpochInfo (snd (getCachedEpochInfo failing_env cold)) = None"
proof -
  have miss: "cachedEpochInfo cold = None \<or>
     30 * Second \<le> time_Since (now_at failing_env (clock_reads cold)) (cachedEpochTime cold)"
    by (simp add: cold_def)
  have fail: "snd (epoch_reply failing_env (calls cold GetEpochInfo)) = Some (Err ''timeout'')"
    by (simp add: failing_env_def example_env_def)
  have "cachedEpochInfo cold = None" by (simp add: cold_def)
  with failed_refresh_keeps_entry [OF miss fail] fail show ?thesis by simp
qed

section \<open>The lookup of the epoch credits\<close>

lemma scan_credits_first:
  "(\<exists>i<length credits. credit_entry e (credits ! i) \<and>
       (\<forall>j<i. \<not> credit_entry e (credits ! j)) \<and>
       scan_credits e credits = (credits ! i ! 1, credits ! i ! 2)) \<or>
   ((\<forall>c\<in>set credits. \<not> credit_entry e c) \<and> scan_credits e credits = (0, 0))"
proof (induction credits)
  case Nil
  then show ?case by simp
next
  case (Cons c credits)
  show ?case
  proof (cases "credit_entry e c")
    case True
    then have "credit_entry e ((c # credits) ! 0) \<and>
       (\<forall>j<0. \<not> credit_entry e ((c # credits) ! j)) \<and>
       scan_credits e (c # credits) = ((c # credits) ! 0 ! 1, (c # credits) ! 0 ! 2)"
      by (simp add: credit_entry_def)
    then show ?thesis by blast
  next
    case False
    then have step: "scan_credits e (c # credits) = scan_credits e credits"
      by (auto simp: credit_entry_def)
    from Cons.IH show ?thesis
    proof
      assume "\<exists>i<length credits. credit_entry e (credits ! i) \<and>
       (\<forall>j<i. \<not> credit_entry e (credits ! j)) \<and>
       scan_credits e credits = (credits ! i ! 1, credits ! i ! 2)"
      then obtain i where i: "i < length credits" "credit_entry e (credits ! i)"
        "\<forall>j<i. \<not> credit_entry e (credits ! j)"
        "scan_credits e credits = (credits ! i ! 1, credits ! i ! 2)" by blast
      have "\<forall>j<Suc i. \<not> credit_entry e ((c # credits) ! j)"
        using False i(3) by (auto simp: less_Suc_eq_0_disj)
      with i step have "Suc i < length (c # credits) \<and> credit_entry e ((c # credits) ! Suc i) \<and>
        (\<forall>j<Suc i. \<not> credit_entry e ((c # credits) ! j)) \<and>
        scan_credits e (c # credits) = ((c # credits) ! Suc i ! 1, (c # credits) ! Suc i ! 2)"
        by simp
      then show ?thesis by blast
    next
      assume "(\<forall>c\<in>set credits. \<not> credit_entry e c) \<and> scan_credits e credits = (0, 0)"
      with False step show ?thesis by simp
    qed
  qed
qed

lemma credits_of_lookup:
  assumes "fst (fst (getCachedEpochInfo env s)) = Some info"
  shows "calcualteEpochVoteCredits env credits s =
           Inr ((float64_of_int (fst (scan_credits (Epoch info) credits)),
                 float64_of_int (snd (scan_credits (Epoch info) credits))),
                snd (getCachedEpochInfo env s))"
  using assms
  by (cases "getCachedEpochInfo env s")
     (auto simp: calcualteEpochVoteCredits_def split: prod.splits option.splits)

text \<open>
  C7.  When the lookup of the epoch info returns a value, the credits returned are the
  second and third number of the first tuple (an entry with at least three numbers)
  whose first number is the epoch of that value, converted to \<open>float64\<close>, and both
  are zero when there is no such tuple.  For \<open>[[100,50,40],[101,60,50]]\<close> the result is
  \<open>(60, 50)\<close> at epoch 101 and \<open>(0, 0)\<close> at epoch 999.
\<close>

theorem epoch_credit_lookup:
  assumes "fst (fst (getCachedEpochInfo env s)) = Some info"
  shows "(\<exists>cur prev.
            calcualteEpochVoteCredits env credits s =
              Inr ((float64_of_int cur, float64_of_int prev), snd (getCachedEpochInfo env s)) \<and>
            ((\<exists>i<length credits. credit_entry (Epoch info) (credits ! i) \<and>
                 (\<forall>j<i. \<not> credit_entry (Epoch info) (credits ! j)) \<and>
                 cur = credits ! i ! 1 \<and> prev = credits ! i ! 2) \<or>
             ((\<forall>c\<in>set credits. \<not> credit_entry (Epoch info) c) \<and> cur = 0 \<and> prev = 0))) \<and>
         (Epoch info = 101 \<longrightarrow>
            calcualteEpochVoteCredits env [[100, 50, 40], [101, 60, 50]] s =
              Inr ((Fin 60, Fin 50), snd (getCachedEpochInfo env s))) \<and>
         (Epoch info = 999 \<longrightarrow>
            calcualteEpochVoteCredits env [[100, 50, 40], [101, 60, 50]] s =
              Inr ((Fin 0, Fin 0), snd (getCachedEpochInfo env s)))"
proof (intro conjI impI)
  let ?r = "scan_credits (Epoch info) credits"
  have "calcualteEpochVoteCredits env credits s =
          Inr ((float64_of_int (fst ?r), float64_of_int (snd ?r)), snd (getCachedEpochInfo env s))"
    by (rule credits_of_lookup [OF assms])
  moreover have "(\<exists>i<length credits. credit_entry (Epoch info) (credits ! i) \<and>
                 (\<forall>j<i. \<not> credit_entry (Epoch info) (credits ! j)) \<and>
                 fst ?r = credits ! i ! 1 \<and> snd ?r = credits ! i ! 2) \<or>
             ((\<forall>c\<in>set credits. \<not> credit_entry (Epoch info) c) \<and> fst ?r = 0 \<and> snd ?r = 0)"
    using scan_credits_first [of credits "Epoch info"] by auto
  ultimately show "\<exists>cur prev.
            calcualteEpochVoteCredits env credits s =
              Inr ((float64_of_int cur, float64_of_int prev), snd (getCachedEpochInfo env s)) \<and>
            ((\<exists>i<length credits. credit_entry (Epoch info) (credits ! i) \<and>
                 (\<forall>j<i. \<not> credit_entry (Epoch info) (credits ! j)) \<and>
                 cur = credits ! i ! 1 \<and> prev = credits ! i ! 2) \<or>
             ((\<forall>c\<in>set credits. \<not> credit_entry (Epoch info) c) \<and> cur = 0 \<and> prev = 0))"
    by blast
next
  assume "Epoch info = 101"
  then show "calcualteEpochVoteCredits env [[100, 50, 40], [101, 60, 50]] s =
              Inr ((Fin 60, Fin 50), snd (getCachedEpochInfo env s))"
    by (simp add: credits_of_lookup [OF assms] float64_of_small_int)
next
  assume "Epoch info = 999"
  then show "calcualteEpochVoteCredits env [[100, 50, 40], [101, 60, 50]] s =
              Inr ((Fin 0, Fin 0), snd (getCachedEpochInfo env s))"
    by (simp add: credits_of_lookup [OF assms] float64_of_small_int)
qed

theorem epoch_credit_lookup_witness:
  "fst (fst (getCachedEpochInfo example_env cold)) = Some \<lparr> Epoch = 101 \<rparr> \<and>
   calcualteEpochVoteCredits example_env [[100, 50, 40], [101, 60, 50]] cold =
     Inr ((Fin 60, Fin 50), snd (getCachedEpochInfo example_env cold)) \<and>
   fst (fst (getCachedEpochInfo later_env cold)) = Some \<lparr> Epoch = 999 \<rparr> \<and>
   calcualteEpochVoteCredits later_env [[100, 50, 40], [101, 60, 50]] cold =
     Inr ((Fin 0, Fin 0), snd (getCachedEpochInfo later_env cold))"
proof -
  have h: "fst (fst (getCachedEpochInfo example_env cold)) = Some \<lparr> Epoch = 101 \<rparr>"
    by (simp add: getCachedEpochInfo_def refresh_def cold_def example_env_def calls_def Let_def)
  have h': "fst (fst (getCachedEpochInfo later_env cold)) = Some \<lparr> Epoch = 999 \<rparr>"
    by (simp add: getCachedEpochInfo_def refresh_def cold_def later_env_def example_env_def
        calls_def Let_def)
  from epoch_credit_lookup [OF h] epoch_credit_lookup [OF h'] h h' show ?thesis by simp
qed

section \<open>A failing epoch-info query\<close>

lemma cache_emit [simp]:
  "cachedEpochInfo (emit m s) = cachedEpochInfo s"
  "cachedEpochInfo (send c msg s) = cachedEpochInfo s"
  "cachedEpochInfo (tick s) = cachedEpochInfo s"
  "cachedEpochInfo (issue k s) = cachedEpochInfo s"
  by (simp_all add: emit_def send_def tick_def issue_def)

lemma cache_emit_last_votes [simp]:
  "cachedEpochInfo (emit_last_votes config accounts s) = cachedEpochInfo s"
  by (induction accounts arbitrary: s) simp_all

lemma failed_lookup:
  assumes "cachedEpochInfo s = None" and "snd (epoch_reply env (calls s GetEpochInfo)) \<noteq> None"
  shows "fst (fst (getCachedEpochInfo env s)) = None \<and>
         cachedEpochInfo (snd (getCachedEpochInfo env s)) = None"
  using assms
  by (auto simp: getCachedEpochInfo_def refresh_def Let_def split: prod.splits option.splits)

lemma nil_epoch_info_panics:
  assumes "fst (fst (getCachedEpochInfo env s)) = None"
  shows "calcualteEpochVoteCredits env credits s = Inl NilPointerDereference"
  using assms
  by (cases "getCachedEpochInfo env s")
     (auto simp: calcualteEpochVoteCredits_def split: prod.splits option.splits)

text \<open>
  C2.  What the code does when the epoch info cannot be had: with no entry in the cache
  and an endpoint whose epoch-info query fails, \<open>getCachedEpochInfo\<close> returns a nil
  pointer, \<open>calcualteEpochVoteCredits\<close> logs the error and reads \<open>epochInfo.Result.Epoch\<close>
  through it, and the panic ends the collection cycle as soon as the vote-accounts reply
  has one current record.
\<close>

theorem epoch_failure_panics:
  assumes cold: "cachedEpochInfo s = None"
    and fail: "\<forall>k. snd (epoch_reply env k) \<noteq> None"
    and accs: "accounts_reply env (calls s GetVoteAccounts) = (response, None)"
    and some: "Current response \<noteq> []"
  shows "calcualteEpochVoteCredits env credits s = Inl NilPointerDereference \<and>
         Collect env config s = Inl NilPointerDereference"
proof
  from fail have f: "\<And>t. snd (epoch_reply env (calls t GetEpochInfo)) \<noteq> None" by simp
  show "calcualteEpochVoteCredits env credits s = Inl NilPointerDereference"
    using failed_lookup [OF cold f] by (simp add: nil_epoch_info_panics)
  obtain vote votes where cur: "Current response = vote # votes"
    using some by (cases "Current response") auto
  define s1 where "s1 = emit_last_votes config (Current response @ Delinquent response)
     (emit (ConstMetric totalValidatorsDesc
                      (float64_of_int (int (length (Current response)))) [''current''])
     (emit (ConstMetric totalValidatorsDesc
                      (float64_of_int (int (length (Delinquent response)))) [''delinquent''])
       (issue GetVoteAccounts s)))"
  have c1: "cachedEpochInfo s1 = None" using cold by (simp add: s1_def)
  define s2 where "s2 = snd (getCachedEpochInfo env s1)"
  have c2: "cachedEpochInfo s2 = None"
    unfolding s2_def using failed_lookup [OF c1 f] by simp
  have "calcualteEpochVoteCredits env (EpochCredits vote) s2 = Inl NilPointerDereference"
    using failed_lookup [OF c2 f] by (simp add: nil_epoch_info_panics)
  then have "current_votes env config (network_last_vote config (Current response))
          (Current response) zero_running s2 = Inl NilPointerDereference"
    by (simp add: cur)
  then have "mustEmitMetrics env config response (issue GetVoteAccounts s) = Inl NilPointerDereference"
    by (simp add: mustEmitMetrics_def Let_def s2_def s1_def)
  then show "Collect env config s = Inl NilPointerDereference"
    using accs by (simp add: Collect_def collect_accounts_def Let_def)
qed

theorem epoch_failure_panics_witness:
  "cachedEpochInfo cold = None \<and>
   accounts_reply crash_env (calls cold GetVoteAccounts) =
     (\<lparr> Current = [example_account], Delinquent = [] \<rparr>, None) \<and>
   calcualteEpochVoteCredits crash_env [[100, 50, 40], [101, 60, 50]] cold =
     Inl NilPointerDereference \<and>
   Collect crash_env example_config cold = Inl NilPointerDereference"
proof -
  have c: "cachedEpochInfo cold = None" by (simp add: cold_def)
  have f: "\<forall>k. snd (epoch_reply crash_env k) \<noteq> None"
    by (simp add: crash_env_def failing_env_def example_env_def)
  have a: "accounts_reply crash_env (calls cold GetVoteAccounts) =
     (\<lparr> Current = [example_account], Delinquent = [] \<rparr>, None)"
    by (simp add: crash_env_def failing_env_def example_env_def)
  have n: "Current \<lparr> Current = [example_account], Delinquent = [] \<rparr> \<noteq> []" by simp
  from epoch_failure_panics [OF c f a n] c a show ?thesis by simp
qed

section \<open>The status alert\<close>

lemma many_false_iff: "many_false env q m \<longleftrightarrow> (\<forall>k<m. fst (dedup_reply env (q + k)) = ''false'')"
  by (auto simp: many_false_def list_all_iff)

lemma alert_slots_Cons:
  "alert_slots env msg now (slot # rest) count s =
     (if now = slot
      then (if fst (dedup_reply env (dedup_queries s)) = ''false''
            then alert_slots env msg now rest (fadd count (Fin 1))
                   (emit (ConstMetric statusAlertCount count [''true''])
                     (send Slack msg (send Email msg (send Telegram msg
                        (s\<lparr>dedup_queries := Suc (dedup_queries s)\<rparr>)))))
            else emit (ConstMetric statusAlertCount count [''false''])
                   (s\<lparr>dedup_queries := Suc (dedup_queries s)\<rparr>))
      else alert_slots env msg now rest count s)"
  by (cases "dedup_reply env (dedup_queries s)") (simp add: Let_def)

declare alert_slots.simps(2) [simp del]

lemma alert_slots_skip:
  assumes "now \<in> set slots" and "fst (dedup_reply env (dedup_queries s)) \<noteq> ''false''"
  shows "alert_slots env msg now slots count s =
           emit (ConstMetric statusAlertCount count [''false''])
             (s\<lparr>dedup_queries := Suc (dedup_queries s)\<rparr>)"
  using assms
  by (induction slots) (auto simp: alert_slots_Cons)


lemma fadd_count: "c + 1 < 2 ^ 53 \<Longrightarrow> fadd (Fin (of_nat c)) (Fin 1) = Fin (of_nat (Suc c))"
proof -
  assume "c + 1 < 2 ^ 53"
  then have "\<bar>int c + 1\<bar> < 2 ^ 53" by (simp add: nat_less_iff flip: of_nat_Suc)
  then have "round64 (of_int (int c + 1)) = Fin (of_int (int c + 1))" by (rule round64_of_int)
  then show ?thesis by (simp add: add.commute)
qed

lemma many_false_Suc:
  "many_false env q (Suc m) \<longleftrightarrow> fst (dedup_reply env q) = ''false'' \<and> many_false env (Suc q) m"
  unfolding many_false_iff
  by (auto simp: less_Suc_eq_0_disj)

lemma alert_slots_all_false:
  assumes "many_false env (dedup_queries s) (count_list slots now)"
    and "c + count_list slots now < 2 ^ 53"
  shows "alerts (alert_slots env msg now slots (Fin (of_nat c)) s) =
           alerts s @ concat (replicate (count_list slots now) (dispatch msg)) \<and>
         ch (alert_slots env msg now slots (Fin (of_nat c)) s) =
           ch s @ map (\<lambda>i. ConstMetric statusAlertCount (Fin (of_nat i)) [''true''])
                    [c..<c + count_list slots now] \<and>
         dedup_queries (alert_slots env msg now slots (Fin (of_nat c)) s) =
           dedup_queries s + count_list slots now"
  using assms
proof (induction slots arbitrary: c s)
  case Nil
  then show ?case by simp
next
  case (Cons slot slots)
  show ?case
  proof (cases "now = slot")
    case False
    with Cons.IH [of s c] Cons.prems show ?thesis by (simp add: alert_slots_Cons)
  next
    case True
    define s3 where "s3 = emit (ConstMetric statusAlertCount (Fin (of_nat c)) [''true''])
        (send Slack msg (send Email msg (send Telegram msg (s\<lparr>dedup_queries := Suc (dedup_queries s)\<rparr>))))"
    have s3: "alerts s3 = alerts s @ dispatch msg" "dedup_queries s3 = Suc (dedup_queries s)"
      "ch s3 = ch s @ [ConstMetric statusAlertCount (Fin (of_nat c)) [''true'']]"
      by (simp_all add: s3_def emit_def send_def dispatch_def)
    from Cons.prems True have f: "fst (dedup_reply env (dedup_queries s)) = ''false''"
      and rest: "many_false env (dedup_queries s3) (count_list slots now)"
      and bound: "Suc c + count_list slots now < 2 ^ 53" "c + 1 < 2 ^ 53"
      by (simp_all add: many_false_Suc s3)
    have step: "alert_slots env msg now (slot # slots) (Fin (of_nat c)) s =
                  alert_slots env msg now slots (Fin (of_nat (Suc c))) s3"
      unfolding alert_slots_Cons [of env msg now slot] s3_def fadd_count [OF bound(2)]
      using True f by (simp del: of_nat_Suc)
    have upt: "[c..<c + count_list (slot # slots) now] = c # [Suc c..<Suc c + count_list slots now]"
      using True by (simp add: upt_conv_Cons)
    from Cons.IH [OF rest bound(1)] show ?thesis
      unfolding step upt using True by (simp add: s3)
  qed
qed





text \<open>
  C3, as the code has it.  When the current minute is the rendering of exactly one
  configured slot and the dedup signal says \<open>false\<close>, each channel gets one dispatch
  attempt and the indicator labelled \<open>true\<close> is emitted with the counter at 0.  The
  scan does not end there: it goes on through the remaining slots, and as long as the
  signal says \<open>false\<close> every further slot that renders to the current minute gets a
  round of its own, with the counter one higher each time.  When the signal says
  \<open>true\<close> on a matching tick, nothing is dispatched and the evaluation ends.
\<close>

theorem alert_tick_dispatch:
  fixes env config msg s
  defines "now \<equiv> now_kitchen env (clock_reads s)"
    and "slots \<equiv> map (kitchen env) (AlertTimings (RegularStatusAlerts config))"
    and "s' \<equiv> AlertValidatorStatus env config msg s"
  shows "(count_list slots now = 1 \<longrightarrow> fst (dedup_reply env (dedup_queries s)) = ''false'' \<longrightarrow>
            alerts s' = alerts s @ [(Telegram, msg), (Email, msg), (Slack, msg)] \<and>
            ch s' = ch s @ [ConstMetric statusAlertCount (Fin 0) [''true'']] \<and>
            dedup_queries s' = Suc (dedup_queries s)) \<and>
         (many_false env (dedup_queries s) (count_list slots now) \<longrightarrow>
          count_list slots now < 2 ^ 53 \<longrightarrow>
            alerts s' = alerts s @ concat (replicate (count_list slots now) (dispatch msg)) \<and>
            ch s' = ch s @ map (\<lambda>i. ConstMetric statusAlertCount (Fin (of_nat i)) [''true''])
                             [0..<count_list slots now] \<and>
            dedup_queries s' = dedup_queries s + count_list slots now) \<and>
         (now \<in> set slots \<longrightarrow> fst (dedup_reply env (dedup_queries s)) = ''true'' \<longrightarrow>
            alerts s' = alerts s \<and>
            ch s' = ch s @ [ConstMetric statusAlertCount (Fin 0) [''false'']] \<and>
            dedup_queries s' = Suc (dedup_queries s))"
proof -
  have s': "s' = alert_slots env msg now slots (Fin (of_nat 0)) (tick s)"
    by (simp add: s'_def AlertValidatorStatus_def Let_def now_def slots_def)
  have all: "alerts s' = alerts s @ concat (replicate (count_list slots now) (dispatch msg)) \<and>
            ch s' = ch s @ map (\<lambda>i. ConstMetric statusAlertCount (Fin (of_nat i)) [''true''])
                             [0..<count_list slots now] \<and>
            dedup_queries s' = dedup_queries s + count_list slots now"
    if "many_false env (dedup_queries s) (count_list slots now)" "count_list slots now < 2 ^ 53"
    using alert_slots_all_false [of env "tick s" slots now 0 msg] that
    unfolding s' by (simp add: tick_def)
  have one: "alerts s' = alerts s @ [(Telegram, msg), (Email, msg), (Slack, msg)] \<and>
            ch s' = ch s @ [ConstMetric statusAlertCount (Fin 0) [''true'']] \<and>
            dedup_queries s' = Suc (dedup_queries s)"
    if "count_list slots now = 1" "fst (dedup_reply env (dedup_queries s)) = ''false''"
    using all that by (simp add: many_false_def dispatch_def)
  have none: "alerts s' = alerts s \<and>
            ch s' = ch s @ [ConstMetric statusAlertCount (Fin 0) [''false'']] \<and>
            dedup_queries s' = Suc (dedup_queries s)"
    if "now \<in> set slots" "fst (dedup_reply env (dedup_queries s)) = ''true''"
  proof -
    have q: "fst (dedup_reply env (dedup_queries (tick s))) \<noteq> ''false''"
      using that(2) by (simp add: tick_def)
    have "s' = alert_slots env msg now slots (Fin 0) (tick s)" by (simp add: s')
    also have "\<dots> = emit (ConstMetric statusAlertCount (Fin 0) [''false''])
             ((tick s)\<lparr>dedup_queries := Suc (dedup_queries (tick s))\<rparr>)"
      by (rule alert_slots_skip [OF that(1) q])
    finally have "s' = emit (ConstMetric statusAlertCount (Fin 0) [''false''])
             ((tick s)\<lparr>dedup_queries := Suc (dedup_queries (tick s))\<rparr>)" .
    then show ?thesis by (simp add: emit_def tick_def)
  qed
  from all one none show ?thesis by blast
qed

theorem alert_tick_dispatch_witness:
  "count_list (map (kitchen example_env) (AlertTimings (RegularStatusAlerts example_config)))
     (now_kitchen example_env (clock_reads cold)) = 1 \<and>
   fst (dedup_reply example_env (dedup_queries cold)) = ''false'' \<and>
   alerts (AlertValidatorStatus example_env example_config ''Solana validator is VOTING'' cold) =
     [(Telegram, ''Solana validator is VOTING''), (Email, ''Solana validator is VOTING''),
      (Slack, ''Solana validator is VOTING'')] \<and>
   ch (AlertValidatorStatus example_env example_config ''Solana validator is VOTING'' cold) =
     [ConstMetric statusAlertCount (Fin 0) [''true'']] \<and>
   now_kitchen sent_env (clock_reads cold) \<in>
     set (map (kitchen sent_env) (AlertTimings (RegularStatusAlerts example_config))) \<and>
   fst (dedup_reply sent_env (dedup_queries cold)) = ''true'' \<and>
   alerts (AlertValidatorStatus sent_env example_config ''Solana validator is VOTING'' cold) = []"
proof -
  have a: "count_list (map (kitchen example_env) (AlertTimings (RegularStatusAlerts example_config)))
     (now_kitchen example_env (clock_reads cold)) = 1"
    "fst (dedup_reply example_env (dedup_queries cold)) = ''false''"
    by (simp_all add: example_env_def example_config_def)
  have b: "now_kitchen sent_env (clock_reads cold) \<in>
     set (map (kitchen sent_env) (AlertTimings (RegularStatusAlerts example_config)))"
    "fst (dedup_reply sent_env (dedup_queries cold)) = ''true''"
    by (simp_all add: sent_env_def example_env_def example_config_def)
  have c: "alerts cold = []" "ch cold = []" by (simp_all add: cold_def)
  from alert_tick_dispatch [of example_env example_config cold "''Solana validator is VOTING''"]
    alert_tick_dispatch [of sent_env example_config cold "''Solana validator is VOTING''"]
    a b c show ?thesis by simp
qed

text \<open>
  With the slot 10:00AM configured twice and the signal at \<open>false\<close>, one evaluation at
  10:00AM makes two dispatch attempts on each channel.
\<close>

theorem repeated_slot_dispatches_twice:
  "alerts (AlertValidatorStatus example_env twice_config ''Solana validator is VOTING'' cold) =
     [(Telegram, ''Solana validator is VOTING''), (Email, ''Solana validator is VOTING''),
      (Slack, ''Solana validator is VOTING''),
      (Telegram, ''Solana validator is VOTING''), (Email, ''Solana validator is VOTING''),
      (Slack, ''Solana validator is VOTING'')] \<and>
   ch (AlertValidatorStatus example_env twice_config ''Solana validator is VOTING'' cold) =
     [ConstMetric statusAlertCount (Fin 0) [''true''],
      ConstMetric statusAlertCount (Fin 1) [''true'']]"
proof -
  have f: "fadd (Fin 0) (Fin 1) = Fin 1"
    using fadd_count [of 0] by simp
  show ?thesis
    unfolding AlertValidatorStatus_def Let_def
    by (simp add: alert_slots_Cons f example_env_def twice_config_def example_config_def cold_def
        tick_def emit_def send_def del: fadd.simps)
qed

section \<open>The conversion of an \<open>int64\<close> is finite\<close>

lemma pow2_powi: "pow2 k = 2 powi k"
  by (simp add: pow2_def power_int_def inverse_eq_divide power_one_over)

lemma pow2_nonneg [simp]: "0 \<le> pow2 k"
  by (rule less_imp_le [OF pow2_pos])

lemma pow2_neq_0 [simp]: "pow2 k \<noteq> 0"
  by (simp add: pow2_def)

lemma pow2_mono: "a \<le> b \<Longrightarrow> pow2 a \<le> pow2 b"
  by (simp add: pow2_powi power_int_increasing)

lemma pow2_diff: "pow2 (a - b) = pow2 a / pow2 b"
  by (simp add: pow2_powi power_int_diff)

lemma round_even_bounds: "of_int \<lfloor>q\<rfloor> \<le> (of_int (round_even q) :: rat)" "of_int (round_even q) \<le> q + 1"
proof -
  show "of_int \<lfloor>q\<rfloor> \<le> (of_int (round_even q) :: rat)"
    by (simp add: round_even_def Let_def)
  have "of_int (round_even q) \<le> (of_int \<lfloor>q\<rfloor> :: rat) + 1"
    by (simp add: round_even_def Let_def)
  with of_int_floor_le [of q] show "of_int (round_even q) \<le> q + 1" by linarith
qed

lemma round64_int64_pos:
  assumes "0 < n" and "n \<le> 2 ^ 63"
  shows "\<exists>r>0. round64 (of_int n) = Fin r"
proof -
  define e where "e = max (ilog2 (of_int n) - 52) (- 1074)"
  define x where "x = (of_int n :: rat) / pow2 e"
  define r where "r = (of_int (round_even x) :: rat) * pow2 e"
  have b1: "1 \<le> bitlen n" using assms by (simp add: bitlen_alt_def)
  have "n < 2 ^ 64" using assms(2) by simp
  then have b64: "bitlen n \<le> 64" by (simp add: bitlen_le_iff_power)
  have e: "e = bitlen n - 53" using b1 by (simp add: e_def ilog2_of_int [OF assms(1)])
  have "pow2 e \<le> pow2 11" using b64 by (intro pow2_mono) (simp add: e)
  then have pe: "pow2 e \<le> 2048" by (simp add: pow2_def)
  have "(2::int) ^ nat (bitlen n - 1) \<le> n" using bitlen_bounds [OF assms(1)] by simp
  then have "(of_int ((2::int) ^ nat (bitlen n - 1)) :: rat) \<le> of_int n"
    by (simp only: of_int_le_iff)
  then have lo: "pow2 (bitlen n - 1) \<le> of_int n" using b1 by (simp add: pow2_nat)
  have "pow2 52 = pow2 (bitlen n - 1) / pow2 e"
    using pow2_diff [of "bitlen n - 1" e] by (simp add: e)
  also have "\<dots> \<le> x" unfolding x_def using lo less_imp_le [OF pow2_pos [of e]]
    by (intro divide_right_mono)
  finally have x1: "1 \<le> x" by (simp add: pow2_def)
  then have "1 \<le> \<lfloor>x\<rfloor>" by simp
  then have "(1::rat) \<le> of_int \<lfloor>x\<rfloor>" by (simp only: of_int_1_le_iff)
  with round_even_bounds(1) [of x] have "(1::rat) \<le> of_int (round_even x)" by linarith
  then have "1 * pow2 e \<le> r" unfolding r_def by (intro mult_right_mono) simp_all
  then have rpos: "0 < r" using pow2_pos [of e] by linarith
  have "r \<le> (x + 1) * pow2 e"
    unfolding r_def using round_even_bounds(2) [of x] by (intro mult_right_mono) simp_all
  also have "\<dots> = of_int n + pow2 e" by (simp add: x_def field_simps)
  also have "\<dots> \<le> of_int (2 ^ 63) + 2048"
    using assms(2) pe by (intro add_mono) (simp_all only: of_int_le_iff)
  also have "\<dots> < pow2 1024" by (simp add: pow2_def)
  finally have "\<not> pow2 1024 \<le> r" by simp
  then have "round64 (of_int n) = Fin r"
    using assms(1) by (simp add: round64_def Let_def r_def x_def e_def)
  with rpos show ?thesis by blast
qed

lemma float64_of_int_finite:
  assumes "is_int64 n"
  shows "\<exists>r. float64_of_int n = Fin r \<and> (r = 0 \<longleftrightarrow> n = 0)"
proof -
  consider "n = 0" | "0 < n" | "n < 0" by linarith
  then show ?thesis
  proof cases
    case 1
    then show ?thesis by (simp add: float64_of_int_def round64_def)
  next
    case 2
    with assms round64_int64_pos [of n] show ?thesis
      by (auto simp: float64_of_int_def is_int64_def)
  next
    case 3
    with assms round64_int64_pos [of "- n"] obtain r where
      r: "0 < r" "round64 (of_int (- n)) = Fin r" by (auto simp: is_int64_def)
    then have "fneg (round64 (of_int n)) = Fin r" by (simp add: round64_neg)
    then have "round64 (of_int n) = Fin (- r)" by (cases "round64 (of_int n)") auto
    with r(1) 3 show ?thesis by (simp add: float64_of_int_def)
  qed
qed

lemma fsub_self:
  assumes "is_int64 n"
  shows "fsub (float64_of_int n) (float64_of_int n) = Fin 0"
proof -
  from float64_of_int_finite [OF assms] obtain r where "float64_of_int n = Fin r" by blast
  then show ?thesis by (simp add: fsub_def round64_def)
qed

section \<open>What each step emits and leaves alone\<close>

lemma of_desc_simps [simp]:
  "of_desc d [] = []"
  "of_desc d (m # ms) = (if metric_desc m = d then m # of_desc d ms else of_desc d ms)"
  "of_desc d (ms @ ms') = of_desc d ms @ of_desc d ms'"
  by (simp_all add: of_desc_def)

lemma ch_simps [simp]:
  "ch (emit m s) = ch s @ [m]"
  "ch (send c msg s) = ch s"
  "ch (tick s) = ch s"
  "ch (issue k s) = ch s"
  by (simp_all add: emit_def send_def tick_def issue_def)

lemma rpcs_simps [simp]:
  "rpcs (emit m s) = rpcs s"
  "rpcs (send c msg s) = rpcs s"
  "rpcs (tick s) = rpcs s"
  "rpcs (issue k s) = rpcs s @ [k]"
  by (simp_all add: emit_def send_def tick_def issue_def)

lemma other_rpcs_simps [simp]:
  "other_rpcs (emit m s) = other_rpcs s"
  "other_rpcs (send c msg s) = other_rpcs s"
  "other_rpcs (tick s) = other_rpcs s"
  "other_rpcs (issue k s) = (if k = GetEpochInfo then other_rpcs s else other_rpcs s @ [k])"
  by (simp_all add: other_rpcs_def)

lemma count_list_without: "k \<noteq> x \<Longrightarrow> count_list (filter (\<lambda>j. j \<noteq> x) xs) k = count_list xs k"
  by (induction xs) auto

lemma calls_other: "k \<noteq> GetEpochInfo \<Longrightarrow> calls s k = count_list (other_rpcs s) k"
  by (simp add: calls_def other_rpcs_def count_list_without)

subsection \<open>The lookup\<close>

lemma lookup_frame [simp]:
  "ch (snd (getCachedEpochInfo env s)) = ch s"
  "alerts (snd (getCachedEpochInfo env s)) = alerts s"
  "other_rpcs (snd (getCachedEpochInfo env s)) = other_rpcs s"
  by (auto simp: getCachedEpochInfo_def refresh_def Let_def other_rpcs_def tick_def issue_def
      split: option.splits prod.splits)

lemma credits_frame:
  assumes "calcualteEpochVoteCredits env credits s = Inr (r, s1)"
  shows "ch s1 = ch s \<and> other_rpcs s1 = other_rpcs s"
proof -
  from assms have "s1 = snd (getCachedEpochInfo env s)"
    by (cases "getCachedEpochInfo env s")
       (auto simp: calcualteEpochVoteCredits_def split: prod.splits option.splits)
  then show ?thesis by simp
qed

subsection \<open>The alert\<close>

lemma alert_slots_frame:
  "(\<exists>ms. ch (alert_slots env msg now slots count s) = ch s @ ms \<and>
         (\<forall>m\<in>set ms. metric_desc m = statusAlertCount)) \<and>
   rpcs (alert_slots env msg now slots count s) = rpcs s \<and>
   cachedEpochInfo (alert_slots env msg now slots count s) = cachedEpochInfo s"
proof (induction slots arbitrary: count s)
  case Nil
  then show ?case by simp
next
  case (Cons slot slots)
  show ?case
  proof (cases "now = slot \<and> fst (dedup_reply env (dedup_queries s)) = ''false''")
    case False
    with Cons.IH [of count s] show ?thesis
      by (auto simp: alert_slots_Cons emit_def)
  next
    case True
    define s3 where "s3 = emit (ConstMetric statusAlertCount count [''true''])
        (send Slack msg (send Email msg (send Telegram msg (s\<lparr>dedup_queries := Suc (dedup_queries s)\<rparr>))))"
    have step: "alert_slots env msg now (slot # slots) count s =
                  alert_slots env msg now slots (fadd count (Fin 1)) s3"
      using True by (simp add: alert_slots_Cons s3_def)
    have s3: "ch s3 = ch s @ [ConstMetric statusAlertCount count [''true'']]" "rpcs s3 = rpcs s"
      "cachedEpochInfo s3 = cachedEpochInfo s"
      by (simp_all add: s3_def emit_def send_def)
    from Cons.IH [of "fadd count (Fin 1)" s3] show ?thesis
      unfolding step s3 by auto
  qed
qed

lemma alert_frame:
  "(\<exists>ms. ch (AlertValidatorStatus env config msg s) = ch s @ ms \<and>
         (\<forall>m\<in>set ms. metric_desc m = statusAlertCount)) \<and>
   rpcs (AlertValidatorStatus env config msg s) = rpcs s \<and>
   cachedEpochInfo (AlertValidatorStatus env config msg s) = cachedEpochInfo s"
  using alert_slots_frame [of env msg "now_kitchen env (clock_reads s)"
      "map (kitchen env) (AlertTimings (RegularStatusAlerts config))" "Fin 0" "tick s"]
  by (simp add: AlertValidatorStatus_def Let_def)

lemma of_desc_none: "\<forall>m\<in>set ms. metric_desc m \<noteq> d \<Longrightarrow> of_desc d ms = []"
  by (induction ms) auto

lemma alert_of_desc:
  "d \<noteq> statusAlertCount \<Longrightarrow>
     of_desc d (ch (AlertValidatorStatus env config msg s)) = of_desc d (ch s)"
  using alert_frame [of env config msg s] by (auto simp: of_desc_none)

lemma alert_other_rpcs [simp]:
  "other_rpcs (AlertValidatorStatus env config msg s) = other_rpcs s"
  using alert_frame [of env config msg s] by (simp add: other_rpcs_def)

lemma alert_cache [simp]:
  "cachedEpochInfo (AlertValidatorStatus env config msg s) = cachedEpochInfo s"
  using alert_frame [of env config msg s] by simp

subsection \<open>A record of the tracked validator\<close>

lemma emit_tracked_frame:
  "of_desc voteHeightDiff (ch (emit_tracked env config netresult vote cCredits pCredits s)) =
     of_desc voteHeightDiff (ch s) @ [height_diff netresult vote]"
  "of_desc networkVoteCredits (ch (emit_tracked env config netresult vote cCredits pCredits s)) =
     of_desc networkVoteCredits (ch s)"
  "other_rpcs (emit_tracked env config netresult vote cCredits pCredits s) = other_rpcs s"
  "cachedEpochInfo (emit_tracked env config netresult vote cCredits pCredits s) = cachedEpochInfo s"
  by (simp_all add: emit_tracked_def Let_def alert_of_desc height_diff_def)


lemma emit_tracked_prefix:
  "\<exists>ms. ch (emit_tracked env config netresult vote cCredits pCredits s) = ch s @ ms"
proof -
  have "\<exists>ms. ch (AlertValidatorStatus env config msg t) = ch t @ ms" for msg t
    using alert_frame [of env config msg t] by blast
  then obtain f where f: "\<And>msg t. ch (AlertValidatorStatus env config msg t) = ch t @ f msg t"
    by metis
  show ?thesis by (simp add: emit_tracked_def Let_def f)
qed

subsection \<open>The loops\<close>

lemma emit_last_votes_frame:
  "of_desc voteHeightDiff (ch (emit_last_votes config accounts s)) = of_desc voteHeightDiff (ch s)"
  "of_desc networkVoteCredits (ch (emit_last_votes config accounts s)) = of_desc networkVoteCredits (ch s)"
  "other_rpcs (emit_last_votes config accounts s) = other_rpcs s"
  by (induction accounts arbitrary: s) simp_all

lemma emit_last_votes_prefix: "\<exists>ms. ch (emit_last_votes config accounts s) = ch s @ ms"
proof (induction accounts arbitrary: s)
  case Nil
  then show ?case by simp
next
  case (Cons a accounts)
  show ?case
  proof (cases "tracked config a")
    case True
    from Cons [of "emit (ConstMetric validatorRootSlot (float64_of_int (RootSlot a))
                     [VotePubkey a, NodePubkey a])
               (emit (ConstMetric validatorLastVote (float64_of_int (LastVote a))
                        [VotePubkey a, NodePubkey a]) s)"] True
    show ?thesis by auto
  next
    case False
    with Cons [of s] show ?thesis by simp
  qed
qed

lemma delinquent_votes_frame:
  "of_desc voteHeightDiff (ch (delinquent_votes config votes s)) = of_desc voteHeightDiff (ch s)"
  "of_desc networkVoteCredits (ch (delinquent_votes config votes s)) = of_desc networkVoteCredits (ch s)"
  "other_rpcs (delinquent_votes config votes s) = other_rpcs s"
  by (induction votes arbitrary: s) (simp_all add: Let_def)

lemma delinquent_votes_prefix: "\<exists>ms. ch (delinquent_votes config votes s) = ch s @ ms"
proof (induction votes arbitrary: s)
  case Nil
  then show ?case by simp
next
  case (Cons v votes)
  show ?case
  proof (cases "tracked config v")
    case True
    define t where "t = send Slack ''Your solana validator is in DELINQUENT state''
      (send Email ''Your solana validator is in DELINQUNET state''
      (send Telegram ''Your solana validator is in DELINQUENT state''
      (emit (ConstMetric validatorDelinquent (Fin 1) [VotePubkey v, NodePubkey v])
      (emit (ConstMetric delinqentCommission (float64_of_int (Commission v)) [FormatInt (Commission v)]) s))))"
    have "delinquent_votes config (v # votes) s = delinquent_votes config votes t"
      using True by (simp add: Let_def t_def)
    moreover have "\<exists>ms. ch t = ch s @ ms" by (simp add: t_def)
    ultimately show ?thesis using Cons [of t] by auto
  next
    case False
    with Cons [of s] show ?thesis by simp
  qed
qed

lemma current_votes_frame:
  assumes "current_votes env config netresult votes r s = Inr (r', s')"
  shows "of_desc voteHeightDiff (ch s') =
           of_desc voteHeightDiff (ch s) @ map (height_diff netresult) (filter (tracked config) votes) \<and>
         of_desc networkVoteCredits (ch s') = of_desc networkVoteCredits (ch s) \<and>
         other_rpcs s' = other_rpcs s \<and> (\<exists>ms. ch s' = ch s @ ms)"
  using assms
proof (induction votes arbitrary: r s)
  case Nil
  then show ?case by simp
next
  case (Cons vote votes)
  from Cons.prems obtain cC pC s1 where
    c: "calcualteEpochVoteCredits env (EpochCredits vote) s = Inr ((cC, pC), s1)"
    by (auto split: sum.splits)
  define s2 where "s2 = (if tracked config vote
             then emit_tracked env config netresult vote cC pC s1 else s1)"
  from Cons.prems c have rest:
    "current_votes env config netresult votes (add_credits cC pC r) s2 = Inr (r', s')"
    by (simp add: s2_def)
  from credits_frame [OF c] have s1: "ch s1 = ch s" "other_rpcs s1 = other_rpcs s" by auto
  have s2: "of_desc voteHeightDiff (ch s2) =
              of_desc voteHeightDiff (ch s) @ map (height_diff netresult) (filter (tracked config) [vote])"
    "of_desc networkVoteCredits (ch s2) = of_desc networkVoteCredits (ch s)"
    "other_rpcs s2 = other_rpcs s" "\<exists>ms. ch s2 = ch s @ ms"
    using emit_tracked_prefix [of env config netresult vote cC pC s1]
    by (auto simp: s2_def emit_tracked_frame s1)
  from Cons.IH [OF rest] s2 show ?case by auto
qed

lemma mustEmitMetrics_frame:
  assumes "mustEmitMetrics env config response s = Inr s'"
  shows "of_desc voteHeightDiff (ch s') =
           of_desc voteHeightDiff (ch s) @
           map (height_diff (network_last_vote config (Current response)))
             (filter (tracked config) (Current response)) \<and>
         other_rpcs s' = other_rpcs s \<and> (\<exists>ms. ch s' = ch s @ ms)"
proof -
  define s0 where "s0 = snd (getCachedEpochInfo env
     (emit_last_votes config (Current response @ Delinquent response)
     (emit (ConstMetric totalValidatorsDesc
                      (float64_of_int (int (length (Current response)))) [''current''])
     (emit (ConstMetric totalValidatorsDesc
                      (float64_of_int (int (length (Delinquent response)))) [''delinquent'']) s))))"
  from assms obtain r s1 where
    loop: "current_votes env config (network_last_vote config (Current response))
             (Current response) zero_running s0 = Inr (r, s1)"
    and s': "s' = delinquent_votes config (Delinquent response) (emit_averages r s1)"
    by (auto simp: mustEmitMetrics_def Let_def s0_def split: sum.splits)
  have s0: "of_desc voteHeightDiff (ch s0) = of_desc voteHeightDiff (ch s)"
    "other_rpcs s0 = other_rpcs s" "\<exists>ms. ch s0 = ch s @ ms"
    using emit_last_votes_prefix [of config "Current response @ Delinquent response"
     "emit (ConstMetric totalValidatorsDesc
                      (float64_of_int (int (length (Current response)))) [''current''])
     (emit (ConstMetric totalValidatorsDesc
                      (float64_of_int (int (length (Delinquent response)))) [''delinquent'']) s)"]
    by (auto simp: s0_def emit_last_votes_frame)
  have av: "of_desc voteHeightDiff (ch (emit_averages r s1)) = of_desc voteHeightDiff (ch s1)"
    "other_rpcs (emit_averages r s1) = other_rpcs s1"
    "\<exists>ms. ch (emit_averages r s1) = ch s1 @ ms"
    by (simp_all add: emit_averages_def Let_def)
  from current_votes_frame [OF loop] s0 av
    delinquent_votes_prefix [of config "Delinquent response" "emit_averages r s1"]
  show ?thesis unfolding s' by (auto simp: delinquent_votes_frame)
qed

section \<open>A cycle in a steady epoch\<close>

lemma round64_0 [simp]: "round64 0 = Fin 0"
  by (simp add: round64_def)

lemma steady_lookup:
  assumes "cachedEpochInfo s = None \<or> cachedEpochInfo s = Some info"
    and "\<forall>k. epoch_reply env k = (info, None)"
  shows "fst (getCachedEpochInfo env s) = (Some info, None) \<and>
         cachedEpochInfo (snd (getCachedEpochInfo env s)) = Some info"
  using assms
  by (auto simp: getCachedEpochInfo_def refresh_def Let_def tick_def issue_def
      split: option.splits)

lemma steady_credits:
  assumes "cachedEpochInfo s = None \<or> cachedEpochInfo s = Some info"
    and "\<forall>k. epoch_reply env k = (info, None)"
  shows "calcualteEpochVoteCredits env (EpochCredits v) s =
           Inr (epoch_credits (Epoch info) v, snd (getCachedEpochInfo env s))"
  using steady_lookup [OF assms] credits_of_lookup [of env s info "EpochCredits v"]
  by (simp add: epoch_credits_def)

lemma steady_current_votes:
  assumes "cachedEpochInfo s = None \<or> cachedEpochInfo s = Some info"
    and "\<forall>k. epoch_reply env k = (info, None)"
  shows "\<exists>s'. current_votes env config netresult votes r s =
           Inr (foldl (\<lambda>r v. add_credits (fst (epoch_credits (Epoch info) v))
                                 (snd (epoch_credits (Epoch info) v)) r) r votes, s')"
  using assms(1)
proof (induction votes arbitrary: r s)
  case Nil
  then show ?case by simp
next
  case (Cons vote votes)
  define s1 where "s1 = snd (getCachedEpochInfo env s)"
  define s2 where "s2 = (if tracked config vote
     then emit_tracked env config netresult vote (fst (epoch_credits (Epoch info) vote))
            (snd (epoch_credits (Epoch info) vote)) s1 else s1)"
  have c: "calcualteEpochVoteCredits env (EpochCredits vote) s =
             Inr (epoch_credits (Epoch info) vote, s1)"
    unfolding s1_def by (rule steady_credits [OF Cons.prems assms(2)])
  have "cachedEpochInfo s1 = Some info"
    unfolding s1_def using steady_lookup [OF Cons.prems assms(2)] by simp
  then have "cachedEpochInfo s2 = None \<or> cachedEpochInfo s2 = Some info"
    by (simp add: s2_def emit_tracked_frame)
  from Cons.IH [OF this] obtain s' where
    "current_votes env config netresult votes
       (add_credits (fst (epoch_credits (Epoch info) vote))
          (snd (epoch_credits (Epoch info) vote)) r) s2 =
     Inr (foldl (\<lambda>r v. add_credits (fst (epoch_credits (Epoch info) v))
                                 (snd (epoch_credits (Epoch info) v)) r)
            (add_credits (fst (epoch_credits (Epoch info) vote))
               (snd (epoch_credits (Epoch info) vote)) r) votes, s')"
    by blast
  then show ?case using c by (cases "epoch_credits (Epoch info) vote") (auto simp: s2_def)
qed

lemma steady_mustEmitMetrics:
  assumes "cachedEpochInfo s = None \<or> cachedEpochInfo s = Some info"
    and "\<forall>k. epoch_reply env k = (info, None)"
  shows "\<exists>s'. mustEmitMetrics env config response s = Inr s'"
proof -
  define s0 where "s0 = snd (getCachedEpochInfo env
     (emit_last_votes config (Current response @ Delinquent response)
     (emit (ConstMetric totalValidatorsDesc
                      (float64_of_int (int (length (Current response)))) [''current''])
     (emit (ConstMetric totalValidatorsDesc
                      (float64_of_int (int (length (Delinquent response)))) [''delinquent'']) s))))"
  have "cachedEpochInfo s0 = Some info"
    unfolding s0_def using assms by (intro steady_lookup [THEN conjunct2]) simp_all
  then have "cachedEpochInfo s0 = None \<or> cachedEpochInfo s0 = Some info" by simp
  from steady_current_votes [OF this assms(2)] obtain r s1 where
    "current_votes env config (network_last_vote config (Current response))
       (Current response) zero_running s0 = Inr (r, s1)" by blast
  then show ?thesis by (simp add: mustEmitMetrics_def Let_def s0_def)
qed

lemma network_last_vote_first:
  "filter (tracked config) votes = v # vs \<Longrightarrow>
     network_last_vote config votes = float64_of_int (LastVote v)"
  by (induction votes) (auto split: if_splits)

text \<open>
  C10, as the code has it.  \<open>netresult\<close> is the last vote of the first current record of
  the tracked validator, and a difference is emitted for every current record of the
  validator.  So the difference emitted for the first such record is exactly 0, which
  is the only one when the identity appears once; for a further record of the same
  identity it is the last vote of the first record minus its own.  The metrics are
  emitted when the cycle returns, which it does in a steady epoch.
\<close>

theorem vote_height_diff_first_record:
  assumes "filter (tracked config) (Current response) = v # vs"
    and "is_int64 (LastVote v)"
  shows "(\<forall>s'. mustEmitMetrics env config response s = Inr s' \<longrightarrow>
            of_desc voteHeightDiff (ch s') =
              of_desc voteHeightDiff (ch s) @
              ConstMetric voteHeightDiff (Fin 0) [''vote height difference''] #
              map (height_diff (float64_of_int (LastVote v))) vs) \<and>
         ((cachedEpochInfo s = None \<or> cachedEpochInfo s = Some info) \<longrightarrow>
          (\<forall>k. epoch_reply env k = (info, None)) \<longrightarrow>
            (\<exists>s'. mustEmitMetrics env config response s = Inr s'))"
proof (intro conjI allI impI)
  fix s' assume "mustEmitMetrics env config response s = Inr s'"
  from mustEmitMetrics_frame [OF this] assms(1)
  show "of_desc voteHeightDiff (ch s') =
              of_desc voteHeightDiff (ch s) @
              ConstMetric voteHeightDiff (Fin 0) [''vote height difference''] #
              map (height_diff (float64_of_int (LastVote v))) vs"
    by (simp add: network_last_vote_first [OF assms(1)] height_diff_def fsub_self [OF assms(2)])
next
  assume "cachedEpochInfo s = None \<or> cachedEpochInfo s = Some info"
    and "\<forall>k. epoch_reply env k = (info, None)"
  then show "\<exists>s'. mustEmitMetrics env config response s = Inr s'"
    by (rule steady_mustEmitMetrics)
qed

lemma example_steady:
  "cachedEpochInfo cold = None \<or> cachedEpochInfo cold = Some \<lparr> Epoch = 101 \<rparr>"
  "\<forall>k. epoch_reply example_env k = (\<lparr> Epoch = 101 \<rparr>, None)"
  by (simp_all add: cold_def example_env_def)

theorem vote_height_diff_first_record_witness:
  "filter (tracked example_config) (Current \<lparr> Current = [example_account], Delinquent = [] \<rparr>) =
     [example_account] \<and>
   is_int64 (LastVote example_account) \<and>
   map_sum id (\<lambda>s. of_desc voteHeightDiff (ch s))
     (mustEmitMetrics example_env example_config
        \<lparr> Current = [example_account], Delinquent = [] \<rparr> cold) =
     Inr [ConstMetric voteHeightDiff (Fin 0) [''vote height difference'']]"
proof -
  let ?response = "\<lparr> Current = [example_account], Delinquent = [] \<rparr>"
  obtain s' where s': "mustEmitMetrics example_env example_config ?response cold = Inr s'"
    using steady_mustEmitMetrics [OF example_steady] by blast
  have f: "filter (tracked example_config) (Current ?response) = [example_account]"
    by (simp add: tracked_def example_config_def example_account_def)
  have i: "is_int64 (LastVote example_account)"
    by (simp add: is_int64_def example_account_def)
  have "ch cold = []" by (simp add: cold_def)
  with vote_height_diff_first_record [OF f i, where env = example_env and s = cold] s' f i
  show ?thesis by simp
qed

text \<open>
  With two current records of the tracked validator, last votes 5 and 7, the second
  difference emitted is \<open>5 - 7\<close>.
\<close>

theorem second_record_height_diff:
  "map_sum id (\<lambda>s. of_desc voteHeightDiff (ch s))
     (mustEmitMetrics example_env example_config two_accounts cold) =
   Inr [ConstMetric voteHeightDiff (Fin 0) [''vote height difference''],
        ConstMetric voteHeightDiff (Fin (- 2)) [''vote height difference'']]"
proof -
  obtain s' where s': "mustEmitMetrics example_env example_config two_accounts cold = Inr s'"
    using steady_mustEmitMetrics [OF example_steady] by blast
  have f: "filter (tracked example_config) (Current two_accounts) = Current two_accounts"
    by (simp add: tracked_def example_config_def example_account_def two_accounts_def)
  have n: "network_last_vote example_config (Current two_accounts) = Fin 5"
    by (simp add: tracked_def example_config_def example_account_def two_accounts_def
        float64_of_small_int)
  have "round64 (of_int (- 2)) = Fin (of_int (- 2))" by (rule round64_of_int) simp
  then have r: "round64 (- 2) = Fin (- 2)" by simp
  have "ch cold = []" by (simp add: cold_def)
  with mustEmitMetrics_frame [OF s'] show ?thesis
    unfolding s' f n
    by (simp add: two_accounts_def example_account_def height_diff_def fsub_def
        float64_of_small_int r)
qed

section \<open>A failing vote-accounts query\<close>

lemma rest_of_cycle:
  "ch (collect_tx env (collect_slot env (collect_leader env (collect_version env t)))) =
     ch t @ other_metrics env t \<and>
   other_rpcs (collect_tx env (collect_slot env (collect_leader env (collect_version env t)))) =
     other_rpcs t @ [GetVersion, GetSlotLeader, GetCurrentSlot, GetTxCount]"
  by (auto simp: collect_tx_def collect_slot_def collect_leader_def collect_version_def
      other_metrics_def Let_def split: prod.splits option.splits)

text \<open>
  C8.  Take a cycle in which the vote-accounts query fails and a cycle from the same
  state in which it succeeds and which returns, the four other queries getting the same
  replies in both.  The failing cycle returns too: it emits the five invalid metrics of
  the vote accounts and then exactly the metrics of the four other queries, which are
  also what the successful cycle emits after those of the vote accounts; and both
  cycles issue the same queries to the endpoint, the epoch info aside, in the same
  order.
\<close>

theorem accounts_failure_leaves_others:
  assumes fail: "snd (accounts_reply env (calls s GetVoteAccounts)) = Some e"
    and ok: "snd (accounts_reply env' (calls s GetVoteAccounts)) = None"
    and same: "version_reply env' = version_reply env" "leader_reply env' = leader_reply env"
      "slot_reply env' = slot_reply env" "tx_reply env' = tx_reply env"
      "NearestThousandFormat env' = NearestThousandFormat env"
    and returns: "Collect env' config s = Inr s2"
  shows "\<exists>s1. Collect env config s = Inr s1 \<and>
           ch s1 = ch s @
             [InvalidMetric totalValidatorsDesc e, InvalidMetric validatorActivatedStake e,
              InvalidMetric validatorLastVote e, InvalidMetric validatorRootSlot e,
              InvalidMetric validatorDelinquent e] @ other_metrics env s \<and>
           (\<exists>ms. ch s2 = ch s @ ms @ other_metrics env s) \<and>
           other_rpcs s1 =
             other_rpcs s @ [GetVoteAccounts, GetVersion, GetSlotLeader, GetCurrentSlot, GetTxCount] \<and>
           other_rpcs s2 = other_rpcs s1"
proof -
  define t where "t = issue GetVoteAccounts s"
  define t1 where "t1 = emit (InvalidMetric validatorDelinquent e)
                   (emit (InvalidMetric validatorRootSlot e)
                     (emit (InvalidMetric validatorLastVote e)
                       (emit (InvalidMetric validatorActivatedStake e)
                         (emit (InvalidMetric totalValidatorsDesc e) t))))"
  define s1 where "s1 = collect_tx env (collect_slot env (collect_leader env (collect_version env t1)))"
  have c1: "Collect env config s = Inr s1"
    using fail by (cases "accounts_reply env (calls s GetVoteAccounts)")
      (simp add: Collect_def collect_accounts_def Let_def s1_def t1_def t_def)
  have rt: "other_rpcs t = other_rpcs s @ [GetVoteAccounts]" "ch t = ch s"
    by (simp_all add: t_def)
  have rt1: "other_rpcs t1 = other_rpcs t" "ch t1 = ch s @
             [InvalidMetric totalValidatorsDesc e, InvalidMetric validatorActivatedStake e,
              InvalidMetric validatorLastVote e, InvalidMetric validatorRootSlot e,
              InvalidMetric validatorDelinquent e]"
    by (simp_all add: t1_def rt)
  have same_others: "other_metrics env t1 = other_metrics env s"
    by (simp add: other_metrics_def t1_def t_def)
  obtain accs' where a: "accounts_reply env' (calls s GetVoteAccounts) = (accs', None)"
    using ok by (cases "accounts_reply env' (calls s GetVoteAccounts)") auto
  from returns a obtain sm where
    sm: "mustEmitMetrics env' config accs' t = Inr sm"
    and s2: "s2 = collect_tx env' (collect_slot env' (collect_leader env' (collect_version env' sm)))"
    by (auto simp: Collect_def collect_accounts_def Let_def t_def split: sum.splits)
  from mustEmitMetrics_frame [OF sm] obtain ms where
    f: "other_rpcs sm = other_rpcs t" "ch sm = ch t @ ms" by blast
  have m2: "other_metrics env' sm = other_metrics env s"
    using same by (simp add: other_metrics_def calls_other f rt)
  have "ch s2 = ch s @ ms @ other_metrics env s"
    unfolding s2 using rest_of_cycle [of env' sm] by (simp add: m2 f rt)
  moreover have "other_rpcs s2 = other_rpcs s1"
    unfolding s2 s1_def using rest_of_cycle [of env' sm] rest_of_cycle [of env t1]
    by (simp add: f rt1)
  moreover have "ch s1 = ch s @
             [InvalidMetric totalValidatorsDesc e, InvalidMetric validatorActivatedStake e,
              InvalidMetric validatorLastVote e, InvalidMetric validatorRootSlot e,
              InvalidMetric validatorDelinquent e] @ other_metrics env s"
    unfolding s1_def using rest_of_cycle [of env t1] by (simp add: same_others rt1)
  moreover have "other_rpcs s1 =
             other_rpcs s @ [GetVoteAccounts, GetVersion, GetSlotLeader, GetCurrentSlot, GetTxCount]"
    unfolding s1_def using rest_of_cycle [of env t1] by (simp add: rt1 rt)
  ultimately show ?thesis using c1 by blast
qed


lemma example_others:
  "other_metrics accounts_down_env cold =
     [ConstMetric solanaVersion (Fin 1) [''1.18.26''], ConstMetric slotLeader (Fin 1) [''leader''],
      ConstMetric currentSlot (Fin 250000000) [''250000000''],
      ConstMetric txCount (Fin 42000) [''42000.00'']]"
proof -
  have d: "digits 250000000 = ''250000000''" "digits 42000 = ''42000''"
    by (simp_all add: digits.simps digit_char_def)
  have "round_even (of_int 4200000) = 4200000" by (rule round_even_of_int)
  then have r: "round_even 4200000 = 4200000" by simp
  show ?thesis
    by (simp add: other_metrics_def accounts_down_env_def example_env_def cold_def calls_def
        float64_of_small_int FormatInt_def Sprintf_2f_def d r digit_char_def)
qed

theorem accounts_failure_leaves_others_witness:
  "snd (accounts_reply accounts_down_env (calls cold GetVoteAccounts)) = Some (Err ''timeout'') \<and>
   snd (accounts_reply example_env (calls cold GetVoteAccounts)) = None \<and>
   map_sum id ch (Collect accounts_down_env example_config cold) =
     Inr ([InvalidMetric totalValidatorsDesc (Err ''timeout''),
           InvalidMetric validatorActivatedStake (Err ''timeout''),
           InvalidMetric validatorLastVote (Err ''timeout''),
           InvalidMetric validatorRootSlot (Err ''timeout''),
           InvalidMetric validatorDelinquent (Err ''timeout'')] @
          other_metrics accounts_down_env cold) \<and>
   map_sum id other_rpcs (Collect accounts_down_env example_config cold) =
     map_sum id other_rpcs (Collect example_env example_config cold) \<and>
   other_metrics accounts_down_env cold =
     [ConstMetric solanaVersion (Fin 1) [''1.18.26''], ConstMetric slotLeader (Fin 1) [''leader''],
      ConstMetric currentSlot (Fin 250000000) [''250000000''],
      ConstMetric txCount (Fin 42000) [''42000.00'']]"
proof -
  have fail: "snd (accounts_reply accounts_down_env (calls cold GetVoteAccounts)) = Some (Err ''timeout'')"
    by (simp add: accounts_down_env_def)
  have ok: "snd (accounts_reply example_env (calls cold GetVoteAccounts)) = None"
    by (simp add: example_env_def)
  have same: "version_reply example_env = version_reply accounts_down_env"
    "leader_reply example_env = leader_reply accounts_down_env"
    "slot_reply example_env = slot_reply accounts_down_env"
    "tx_reply example_env = tx_reply accounts_down_env"
    "NearestThousandFormat example_env = NearestThousandFormat accounts_down_env"
    by (simp_all add: accounts_down_env_def)
  have c: "cachedEpochInfo (issue GetVoteAccounts cold) = None \<or>
           cachedEpochInfo (issue GetVoteAccounts cold) = Some \<lparr> Epoch = 101 \<rparr>"
    by (simp add: cold_def)
  obtain sm where "mustEmitMetrics example_env example_config no_accounts
      (issue GetVoteAccounts cold) = Inr sm"
    using steady_mustEmitMetrics [OF c example_steady(2)] by blast
  then obtain s2 where returns: "Collect example_env example_config cold = Inr s2"
    by (simp add: Collect_def collect_accounts_def Let_def example_env_def)
  have "ch cold = []" by (simp add: cold_def)
  with accounts_failure_leaves_others [OF fail ok same returns] fail ok returns example_others
  show ?thesis by auto
qed

section \<open>The network average of the vote credits\<close>

lemma round64_pos_nonzero:
  assumes "0 < n"
  shows "round64 (of_int n) \<noteq> Fin 0"
proof -
  define e where "e = max (ilog2 (of_int n) - 52) (- 1074)"
  define x where "x = (of_int n :: rat) / pow2 e"
  define r where "r = (of_int (round_even x) :: rat) * pow2 e"
  have b1: "1 \<le> bitlen n" using assms by (simp add: bitlen_alt_def)
  have e: "e = bitlen n - 53" using b1 by (simp add: e_def ilog2_of_int [OF assms])
  have "(2::int) ^ nat (bitlen n - 1) \<le> n" using bitlen_bounds [OF assms] by simp
  then have "(of_int ((2::int) ^ nat (bitlen n - 1)) :: rat) \<le> of_int n"
    by (simp only: of_int_le_iff)
  then have lo: "pow2 (bitlen n - 1) \<le> of_int n" using b1 by (simp add: pow2_nat)
  have "pow2 52 = pow2 (bitlen n - 1) / pow2 e"
    using pow2_diff [of "bitlen n - 1" e] by (simp add: e)
  also have "\<dots> \<le> x" unfolding x_def using lo by (intro divide_right_mono) simp_all
  finally have x1: "1 \<le> x" by (simp add: pow2_def)
  then have "1 \<le> \<lfloor>x\<rfloor>" by simp
  then have "(1::rat) \<le> of_int \<lfloor>x\<rfloor>" by (simp only: of_int_1_le_iff)
  with round_even_bounds(1) [of x] have "(1::rat) \<le> of_int (round_even x)" by linarith
  then have "1 * pow2 e \<le> r" unfolding r_def by (intro mult_right_mono) simp_all
  then have rpos: "0 < r" using pow2_pos [of e] by linarith
  have "round64 (of_int n) = (if pow2 1024 \<le> r then PosInf else Fin r)"
    using assms by (simp add: round64_def Let_def r_def x_def e_def)
  with rpos show ?thesis by auto
qed

lemma float64_of_int_eq_0 [simp]: "float64_of_int n = Fin 0 \<longleftrightarrow> n = 0"
proof -
  consider "n = 0" | "0 < n" | "n < 0" by linarith
  then show ?thesis
  proof cases
    case 1
    then show ?thesis by (simp add: float64_of_int_def)
  next
    case 2
    then show ?thesis using round64_pos_nonzero [of n] by (simp add: float64_of_int_def)
  next
    case 3
    then have "round64 (of_int (- n)) \<noteq> Fin 0" by (intro round64_pos_nonzero) simp
    then have "fneg (round64 (of_int n)) \<noteq> Fin 0" by (simp add: round64_neg)
    then have "round64 (of_int n) \<noteq> Fin 0" by (cases "round64 (of_int n)") auto
    with 3 show ?thesis by (simp add: float64_of_int_def)
  qed
qed

lemma fold_add_credits:
  "foldl (\<lambda>r v. add_credits (c v) (p v) r) r votes =
     \<lparr> runningCurrentCredits =
         foldl fadd (runningCurrentCredits r)
           (map c (filter (\<lambda>v. c v \<noteq> Fin 0 \<and> p v \<noteq> Fin 0) votes)),
       runningPreviousCredits =
         foldl fadd (runningPreviousCredits r)
           (map p (filter (\<lambda>v. c v \<noteq> Fin 0 \<and> p v \<noteq> Fin 0) votes)),
       currentCreditsCount =
         currentCreditsCount r + int (length (filter (\<lambda>v. c v \<noteq> Fin 0 \<and> p v \<noteq> Fin 0) votes)),
       previousCreditsCount =
         previousCreditsCount r + int (length (filter (\<lambda>v. c v \<noteq> Fin 0 \<and> p v \<noteq> Fin 0) votes)) \<rparr>"
  by (induction votes arbitrary: r) (simp_all add: add_credits_def)

lemma qualifies_float:
  "(fst (epoch_credits e v) \<noteq> Fin 0 \<and> snd (epoch_credits e v) \<noteq> Fin 0) = qualifies e v"
  by (simp add: epoch_credits_def qualifies_def current_int_def previous_int_def)

lemma steady_averages:
  assumes "cachedEpochInfo s = None \<or> cachedEpochInfo s = Some info"
    and "\<forall>k. epoch_reply env k = (info, None)"
  shows "\<exists>s'. mustEmitMetrics env config response s = Inr s' \<and>
           of_desc networkVoteCredits (ch s') =
             of_desc networkVoteCredits (ch s) @
             [ConstMetric networkVoteCredits
                (float_mean (map (\<lambda>v. float64_of_int (current_int (Epoch info) v))
                   (filter (qualifies (Epoch info)) (Current response)))) [''current''],
              ConstMetric networkVoteCredits
                (float_mean (map (\<lambda>v. float64_of_int (previous_int (Epoch info) v))
                   (filter (qualifies (Epoch info)) (Current response)))) [''previous'']]"
proof -
  define s0 where "s0 = snd (getCachedEpochInfo env
     (emit_last_votes config (Current response @ Delinquent response)
     (emit (ConstMetric totalValidatorsDesc
                      (float64_of_int (int (length (Current response)))) [''current''])
     (emit (ConstMetric totalValidatorsDesc
                      (float64_of_int (int (length (Delinquent response)))) [''delinquent'']) s))))"
  define r where "r = foldl (\<lambda>r v. add_credits (fst (epoch_credits (Epoch info) v))
                                 (snd (epoch_credits (Epoch info) v)) r) zero_running (Current response)"
  have "cachedEpochInfo s0 = Some info"
    unfolding s0_def using assms by (intro steady_lookup [THEN conjunct2]) simp_all
  then have "cachedEpochInfo s0 = None \<or> cachedEpochInfo s0 = Some info" by simp
  from steady_current_votes [OF this assms(2)] obtain s1 where
    loop: "current_votes env config (network_last_vote config (Current response))
       (Current response) zero_running s0 = Inr (r, s1)" unfolding r_def by blast
  have s0: "of_desc networkVoteCredits (ch s0) = of_desc networkVoteCredits (ch s)"
    by (simp add: s0_def emit_last_votes_frame)
  from current_votes_frame [OF loop] s0
  have s1: "of_desc networkVoteCredits (ch s1) = of_desc networkVoteCredits (ch s)" by simp
  have m: "mustEmitMetrics env config response s =
             Inr (delinquent_votes config (Delinquent response) (emit_averages r s1))"
    using loop by (simp add: mustEmitMetrics_def Let_def s0_def)
  have r: "runningCurrentCredits r = fsum (map (\<lambda>v. float64_of_int (current_int (Epoch info) v))
                   (filter (qualifies (Epoch info)) (Current response)))"
    "runningPreviousCredits r = fsum (map (\<lambda>v. float64_of_int (previous_int (Epoch info) v))
                   (filter (qualifies (Epoch info)) (Current response)))"
    "currentCreditsCount r = int (length (filter (qualifies (Epoch info)) (Current response)))"
    "previousCreditsCount r = int (length (filter (qualifies (Epoch info)) (Current response)))"
    unfolding r_def fold_add_credits qualifies_float
    by (simp_all add: zero_running_def fsum_def epoch_credits_def current_int_def previous_int_def)
  show ?thesis
    unfolding m
    by (simp add: delinquent_votes_frame emit_averages_def Let_def s1 r float_mean_def)
qed

lemma fsum_exact:
  assumes "\<forall>x\<in>set xs. 0 \<le> x" and "0 \<le> a" and "a + sum_list xs < 2 ^ 53"
  shows "foldl fadd (Fin (of_int a)) (map float64_of_int xs) = Fin (of_int (a + sum_list xs))"
  using assms
proof (induction xs arbitrary: a)
  case Nil
  then show ?case by simp
next
  case (Cons x xs)
  have nn: "0 \<le> sum_list xs" using Cons.prems(1) by (intro sum_list_nonneg) simp
  have x: "0 \<le> x" "x < 2 ^ 53" "a + x < 2 ^ 53" "0 \<le> a + x"
    using Cons.prems nn by auto
  have "fadd (Fin (of_int a)) (float64_of_int x) = round64 (of_int (a + x))"
    using x by (simp add: float64_of_small_int)
  also have "\<dots> = Fin (of_int (a + x))" using x by (intro round64_of_int) simp
  finally have step: "fadd (Fin (of_int a)) (float64_of_int x) = Fin (of_int (a + x))" .
  have "foldl fadd (Fin (of_int (a + x))) (map float64_of_int xs) =
          Fin (of_int (a + x + sum_list xs))"
    using Cons.prems x by (intro Cons.IH) (auto simp: add.assoc)
  then show ?case by (simp add: step add.assoc del: fadd.simps)
qed

lemma float_mean_exact:
  assumes "\<forall>x\<in>set xs. 0 < x" and "sum_list xs < 2 ^ 53" and "xs \<noteq> []"
  shows "float_mean (map float64_of_int xs) = round64 (of_int (sum_list xs) / of_nat (length xs))"
proof -
  have "\<forall>x\<in>set xs. 0 \<le> x" using assms(1) by auto
  then have s: "fsum (map float64_of_int xs) = Fin (of_int (sum_list xs))"
    using fsum_exact [of xs 0] assms(2) by (simp add: fsum_def)
  have "int (length xs) \<le> sum_list xs"
    using assms(1)
  proof (induction xs)
    case Nil
    then show ?case by simp
  next
    case (Cons x xs)
    then have "1 \<le> x" "int (length xs) \<le> sum_list xs" by auto
    then show ?case by simp
  qed
  then have "\<bar>int (length xs)\<bar> < 2 ^ 53" using assms(2) by simp
  then have l: "float64_of_int (int (length xs)) = Fin (of_int (int (length xs)))"
    by (rule float64_of_small_int)
  show ?thesis using assms(3) by (simp add: float_mean_def s l)
qed

lemma float_mean_Nil: "float_mean [] = NaN"
  by (simp add: float_mean_def fsum_def float64_of_int_def)


text \<open>
  C1, as the code has it.  In a steady epoch the cycle returns and emits, as the two
  network averages, the \<open>float64\<close> means of the current and of the previous credits
  over exactly the current records whose two credits are both nonzero.  When the
  credits of these records are positive and add up to less than \<open>2 ^ 53\<close> the sums are
  exact, and each average is the arithmetic mean rounded once to \<open>float64\<close>.  When no
  record qualifies both averages are the quotient of zero by zero, NaN: the two gauges
  are emitted all the same.
\<close>

theorem network_average_credits:
  fixes env config response s info
  defines "e \<equiv> Epoch info"
  defines "Q \<equiv> filter (qualifies e) (Current response)"
  defines "avgCurrent \<equiv> float_mean (map (\<lambda>v. float64_of_int (current_int e v)) Q)"
    and "avgPrevious \<equiv> float_mean (map (\<lambda>v. float64_of_int (previous_int e v)) Q)"
  assumes "cachedEpochInfo s = None \<or> cachedEpochInfo s = Some info"
    and "\<forall>k. epoch_reply env k = (info, None)"
  shows "(\<exists>s'. mustEmitMetrics env config response s = Inr s' \<and>
            of_desc networkVoteCredits (ch s') =
              of_desc networkVoteCredits (ch s) @
              [ConstMetric networkVoteCredits avgCurrent [''current''],
               ConstMetric networkVoteCredits avgPrevious [''previous'']]) \<and>
         (Q \<noteq> [] \<longrightarrow> (\<forall>v\<in>set Q. 0 < current_int e v) \<longrightarrow>
          sum_list (map (current_int e) Q) < 2 ^ 53 \<longrightarrow>
            avgCurrent = round64 (of_int (sum_list (map (current_int e) Q)) / of_nat (length Q))) \<and>
         (Q \<noteq> [] \<longrightarrow> (\<forall>v\<in>set Q. 0 < previous_int e v) \<longrightarrow>
          sum_list (map (previous_int e) Q) < 2 ^ 53 \<longrightarrow>
            avgPrevious = round64 (of_int (sum_list (map (previous_int e) Q)) / of_nat (length Q))) \<and>
         (Q = [] \<longrightarrow> avgCurrent = NaN \<and> avgPrevious = NaN)"
proof (intro conjI impI)
  show "\<exists>s'. mustEmitMetrics env config response s = Inr s' \<and>
            of_desc networkVoteCredits (ch s') =
              of_desc networkVoteCredits (ch s) @
              [ConstMetric networkVoteCredits avgCurrent [''current''],
               ConstMetric networkVoteCredits avgPrevious [''previous'']]"
    unfolding avgCurrent_def avgPrevious_def Q_def e_def
    by (rule steady_averages [OF assms(5,6)])
next
  assume "Q \<noteq> []" "\<forall>v\<in>set Q. 0 < current_int e v" "sum_list (map (current_int e) Q) < 2 ^ 53"
  then show "avgCurrent = round64 (of_int (sum_list (map (current_int e) Q)) / of_nat (length Q))"
    unfolding avgCurrent_def
    using float_mean_exact [of "map (current_int e) Q"] by (simp add: comp_def)
next
  assume "Q \<noteq> []" "\<forall>v\<in>set Q. 0 < previous_int e v" "sum_list (map (previous_int e) Q) < 2 ^ 53"
  then show "avgPrevious = round64 (of_int (sum_list (map (previous_int e) Q)) / of_nat (length Q))"
    unfolding avgPrevious_def
    using float_mean_exact [of "map (previous_int e) Q"] by (simp add: comp_def)
next
  assume "Q = []"
  then show "avgCurrent = NaN" "avgPrevious = NaN"
    by (simp_all add: avgCurrent_def avgPrevious_def float_mean_Nil)
qed

theorem network_average_credits_witness:
  "(cachedEpochInfo cold = None \<or> cachedEpochInfo cold = Some \<lparr> Epoch = 101 \<rparr>) \<and>
   filter (qualifies 101) [example_account] = [example_account] \<and>
   current_int 101 example_account = 60 \<and> previous_int 101 example_account = 50 \<and>
   map_sum id (\<lambda>s. of_desc networkVoteCredits (ch s))
     (mustEmitMetrics example_env example_config
        \<lparr> Current = [example_account], Delinquent = [] \<rparr> cold) =
     Inr [ConstMetric networkVoteCredits (Fin 60) [''current''],
          ConstMetric networkVoteCredits (Fin 50) [''previous'']]"
proof -
  have q: "current_int 101 example_account = 60" "previous_int 101 example_account = 50"
    "filter (qualifies 101) [example_account] = [example_account]"
    by (simp_all add: qualifies_def current_int_def previous_int_def example_account_def)
  have r: "round64 (of_int 60) = Fin (of_int 60)" "round64 (of_int 50) = Fin (of_int 50)"
    by (rule round64_of_int, simp)+
  have c: "ch cold = []" by (simp add: cold_def)
  from network_average_credits [OF example_steady, of example_config
      "\<lparr> Current = [example_account], Delinquent = [] \<rparr>"] example_steady(1) q r c
  show ?thesis by auto
qed

text \<open>With no current record at all the two averages emitted are NaN.\<close>

theorem no_qualifying_validator_average:
  "map_sum id (\<lambda>s. of_desc networkVoteCredits (ch s))
     (mustEmitMetrics example_env example_config no_accounts cold) =
   Inr [ConstMetric networkVoteCredits NaN [''current''],
        ConstMetric networkVoteCredits NaN [''previous'']]"
proof -
  have c: "ch cold = []" by (simp add: cold_def)
  from steady_averages [OF example_steady, of example_config no_accounts] c
  show ?thesis by (auto simp: no_accounts_def float_mean_Nil)
qed

section \<open>The block-time differential\<close>

lemma wrap64_id: "is_int64 x \<Longrightarrow> wrap64 x = x"
  by (simp add: is_int64_def wrap64_def)

lemma quo_rem_mult:
  assumes "0 < b"
  shows "quo (d * b) b = d" "rem (d * b) b = 0"
proof -
  have "\<bar>d * b\<bar> div \<bar>b\<bar> = \<bar>d\<bar>" using assms by (simp add: abs_mult)
  moreover have "sgn (d * b) * sgn b = sgn d" using assms by (simp add: sgn_mult)
  ultimately show q: "quo (d * b) b = d" by (simp add: quo_def mult_sgn_abs)
  show "rem (d * b) b = 0" unfolding rem_def q by simp
qed

lemma quo_rem_Second: "quo (d * Second) Second = d" "rem (d * Second) Second = 0"
  by (rule quo_rem_mult, simp add: Second_def)+

lemma Seconds_whole:
  assumes "\<bar>d\<bar> < 2 ^ 53"
  shows "Seconds (d * Second) = Fin (of_int d)"
proof -
  have "float64_of_int d = Fin (of_int d)" by (rule float64_of_small_int [OF assms])
  moreover have "round64 (of_int d) = Fin (of_int d)" by (rule round64_of_int [OF assms])
  ultimately show ?thesis
    by (simp add: Seconds_def quo_rem_Second float64_of_small_int)
qed

lemma digit_char_props: "d < 10 \<Longrightarrow> is_digit (digit_char d) \<and> digit_val (digit_char d) = d"
proof -
  assume "d < 10"
  then have "d \<in> {0, 1, 2, 3, 4, 5, 6, 7, 8, 9}" by auto
  then show ?thesis
    by (auto simp: digit_char_def is_digit_def digit_val_def)
qed

lemma digits_all: "list_all is_digit (digits n)"
  by (induction n rule: digits.induct) (subst digits.simps, simp add: digit_char_props)

lemma digits_not_Nil: "digits n \<noteq> []"
  by (subst digits.simps) simp

lemma parse_nat_snoc: "parse_nat (s @ [c]) = 10 * parse_nat s + digit_val c"
  by (simp add: parse_nat_def)

lemma parse_nat_digits: "parse_nat (digits n) = n"
proof (induction n rule: digits.induct)
  case (1 n)
  show ?case
  proof (cases "n < 10")
    case True
    then show ?thesis
      by (subst digits.simps) (simp add: parse_nat_def digit_char_props)
  next
    case False
    with 1 have "parse_nat (digits (n div 10)) = n div 10" by simp
    with False show ?thesis
      by (subst digits.simps) (simp add: parse_nat_snoc digit_char_props)
  qed
qed

lemma is_digit_not_point: "is_digit c \<Longrightarrow> c \<noteq> CHR ''.''"
  by (auto simp: is_digit_def)

lemma takeWhile_digits:
  "list_all is_digit ds \<Longrightarrow> takeWhile (\<lambda>c. c \<noteq> CHR ''.'') (ds @ CHR ''.'' # rest) = ds"
  by (induction ds) (auto simp: is_digit_not_point)

lemma parse_decimal_whole:
  "parse_decimal (digits n @ ''.00'') = Some (of_nat n)"
proof -
  have t: "takeWhile (\<lambda>c. c \<noteq> CHR ''.'') (digits n @ ''.00'') = digits n"
    using takeWhile_digits [OF digits_all, of n "''00''"] by simp
  have z: "parse_nat ''00'' = 0" "is_digit CHR ''0''"
    by (simp_all add: parse_nat_def digit_val_def is_digit_def)
  show ?thesis
    unfolding parse_decimal_def t Let_def
    by (simp add: digits_all digits_not_Nil parse_nat_digits z)
qed

lemma ParseFloat_whole:
  assumes "n < 2 ^ 53"
  shows "ParseFloat (digits n @ ''.00'') = (Fin (of_nat n), None)"
proof -
  obtain c cs where d: "digits n = c # cs" using digits_not_Nil [of n] by (cases "digits n") auto
  have "is_digit c" using digits_all [of n] by (simp add: d)
  then have c: "c \<noteq> CHR ''I''" "c \<noteq> CHR ''-''" "c \<noteq> CHR ''N''"
    by (auto simp: is_digit_def)
  have "\<bar>int n\<bar> < 2 ^ 53" using assms by (simp add: nat_less_iff)
  then have "round64 (of_int (int n)) = Fin (of_int (int n))" by (rule round64_of_int)
  then have r: "round64 (of_nat n) = Fin (of_nat n)" by simp
  have p: "parse_decimal (c # cs @ ''.00'') = Some (of_nat n)"
    using parse_decimal_whole [of n] by (simp add: d)
  show ?thesis
    unfolding ParseFloat_def d using c by (simp add: p r)
qed

lemma Sprintf_whole:
  assumes "0 \<le> n"
  shows "Sprintf_2f (Fin (of_int n)) = digits (nat n) @ ''.00''"
proof -
  have "round_even (of_int (n * 100)) = n * 100" by (rule round_even_of_int)
  then have r: "round_even (of_int n * 100) = n * 100" by simp
  have "nat (n * 100) div 100 = nat n" "nat (n * 100) mod 100 = 0" "nat (n * 100) mod 10 = 0"
    using assms by (simp_all add: nat_mult_distrib)
  then show ?thesis using assms
    by (simp add: Sprintf_2f_def r Let_def digit_char_def)
qed

lemma blockTimeDiff_whole:
  assumes "is_int64 (t1 + unixToInternal)" and "is_int64 (t2 + unixToInternal)"
    and "\<bar>t1 - t2\<bar> \<le> 9223372036"
  shows "blockTimeDiff t1 t2 = (Fin (of_int \<bar>t1 - t2\<bar>), digits (nat \<bar>t1 - t2\<bar>) @ ''.00'')"
proof -
  define d where "d = t1 - t2"
  have d: "\<bar>d\<bar> \<le> 9223372036" using assms(3) by (simp add: d_def)
  then have small: "\<bar>d\<bar> < 2 ^ 53" by simp
  have "- 9223372036 \<le> d" "d \<le> 9223372036" using d by auto
  moreover have "(2::int) ^ 63 = 9223372036854775808" by simp
  ultimately have "minDuration \<le> d * Second \<and> d * Second \<le> maxDuration"
    unfolding minDuration_def maxDuration_def Second_def by linarith
  then have "saturate (d * Second) = d * Second" by (simp add: saturate_def)
  then have sub: "time_Sub (time_Unix t1) (time_Unix t2) = d * Second"
    by (simp add: time_Sub_def time_Unix_def wrap64_id assms d_def)
  have sec: "Seconds (d * Second) = Fin (of_int d)" by (rule Seconds_whole [OF small])
  have abs: "(if flt (Fin (of_int d)) (Fin 0) then fneg (Fin (of_int d)) else Fin (of_int d)) =
        Fin (of_int \<bar>d\<bar>)"
    by simp
  have str: "Sprintf_2f (Fin (of_int \<bar>d\<bar>)) = digits (nat \<bar>d\<bar>) @ ''.00''"
    by (rule Sprintf_whole) simp
  have "nat \<bar>d\<bar> < 2 ^ 53" using small by (simp add: nat_less_iff)
  then have "ParseFloat (digits (nat \<bar>d\<bar>) @ ''.00'') = (Fin (of_nat (nat \<bar>d\<bar>)), None)"
    by (rule ParseFloat_whole)
  then have parse: "fst (ParseFloat (digits (nat \<bar>d\<bar>) @ ''.00'')) = Fin (of_int \<bar>d\<bar>)"
    by simp
  have "blockTimeDiff t1 t2 = (Fin (of_int \<bar>d\<bar>), digits (nat \<bar>d\<bar>) @ ''.00'')"
    by (simp only: blockTimeDiff_def Let_def sub sec abs str parse)
  then show ?thesis by (simp only: d_def)
qed

lemma round_even_near:
  assumes "of_int m - 1 / 2 < x" and "x < of_int m + 1 / 2"
  shows "round_even x = m"
proof (cases "of_int m \<le> x")
  case True
  then have "\<lfloor>x\<rfloor> = m" using assms(2) by (intro floor_unique) auto
  then show ?thesis using assms(2) by (simp add: round_even_def Let_def)
next
  case False
  then have "\<lfloor>x\<rfloor> = m - 1" using assms(1) by (intro floor_unique) auto
  then show ?thesis using assms(1) by (simp add: round_even_def Let_def)
qed

lemma far_sub: "time_Sub (time_Unix 0) (time_Unix 10000000000) = - 9223372036854775808"
  by (simp add: time_Sub_def time_Unix_def wrap64_def unixToInternal_def saturate_def Second_def
      minDuration_def maxDuration_def)

lemma far_round1:
  "fdiv (Fin (- 854775808)) (Fin 1000000000) = Fin (- (7699136020788229 / 9007199254740992))"
  by code_simp

lemma far_round2:
  "fadd (Fin (- 9223372036)) (Fin (- (7699136020788229 / 9007199254740992))) =
     Fin (- (4835703278458517 / 524288))"
  by code_simp

lemma far_round3: "round64 (184467440737 / 20) = Fin (4835703278456013 / 524288)"
  by code_simp

lemma far_seconds: "Seconds (- 9223372036854775808) = Fin (- (4835703278458517 / 524288))"
proof -
  have q: "quo (- 9223372036854775808) Second = - 9223372036"
    "rem (- 9223372036854775808) Second = - 854775808"
    by (simp_all add: quo_def rem_def Second_def)
  have f: "float64_of_int (- 9223372036) = Fin (- 9223372036)"
    "float64_of_int (- 854775808) = Fin (- 854775808)"
    using float64_of_small_int [of "- 9223372036"] float64_of_small_int [of "- 854775808"]
    by simp_all
  show ?thesis
    by (simp only: Seconds_def q f far_round1 far_round2)
qed

lemma far_string: "Sprintf_2f (Fin (4835703278458517 / 524288)) = ''9223372036.85''"
proof -
  have r: "round_even (\<bar>4835703278458517 / 524288\<bar> * 100) = 922337203685"
    by (rule round_even_near) simp_all
  have d: "digits 9223372036 = ''9223372036''"
    by (simp add: digits.simps digit_char_def)
  have "Sprintf_2f (Fin (4835703278458517 / 524288)) =
          (if (4835703278458517 / 524288 :: rat) < 0 then [CHR ''-''] else []) @
          digits (nat 922337203685 div 100) @ [CHR ''.''] @
          [digit_char (nat 922337203685 mod 100 div 10), digit_char (nat 922337203685 mod 10)]"
    by (simp only: Sprintf_2f_def float64.case r Let_def)
  then show ?thesis by (simp add: d digit_char_def)
qed

lemma far_parse: "ParseFloat ''9223372036.85'' = (Fin (4835703278456013 / 524288), None)"
proof -
  have p: "parse_decimal ''9223372036.85'' = Some (184467440737 / 20)"
    by (simp add: parse_decimal_def parse_nat_def digit_val_def is_digit_def)
  show ?thesis
    by (simp add: ParseFloat_def p far_round3)
qed

text \<open>
  C9, as the code has it.  For two block times that \<open>time.Unix\<close> holds without wrapping
  and that are at most 9223372036 seconds apart, the largest whole number of seconds in
  a Duration, the differential is \<open>|t1 - t2|\<close> whatever the order of the arguments: the
  string is the decimal numeral of \<open>|t1 - t2|\<close> followed by \<open>.00\<close>, and the number is
  what parsing that string gives, \<open>|t1 - t2|\<close> itself.
\<close>

theorem block_time_diff_in_range:
  assumes "is_int64 t1" and "is_int64 t2"
    and "is_int64 (t1 + unixToInternal)" and "is_int64 (t2 + unixToInternal)"
    and "\<bar>t1 - t2\<bar> \<le> 9223372036"
  shows "blockTimeDiff t1 t2 = (Fin (of_int \<bar>t1 - t2\<bar>), digits (nat \<bar>t1 - t2\<bar>) @ ''.00'') \<and>
         blockTimeDiff t2 t1 = blockTimeDiff t1 t2 \<and>
         fst (blockTimeDiff t1 t2) = fst (ParseFloat (snd (blockTimeDiff t1 t2)))"
proof -
  have a: "blockTimeDiff t1 t2 = (Fin (of_int \<bar>t1 - t2\<bar>), digits (nat \<bar>t1 - t2\<bar>) @ ''.00'')"
    by (rule blockTimeDiff_whole [OF assms(3,4,5)])
  have "\<bar>t2 - t1\<bar> \<le> 9223372036" using assms(5) by simp
  from blockTimeDiff_whole [OF assms(4,3) this]
  have b: "blockTimeDiff t2 t1 = (Fin (of_int \<bar>t1 - t2\<bar>), digits (nat \<bar>t1 - t2\<bar>) @ ''.00'')"
    by (simp add: abs_minus_commute)
  have "nat \<bar>t1 - t2\<bar> < 2 ^ 53" using assms(5) by (simp add: nat_less_iff)
  from ParseFloat_whole [OF this]
  have c: "fst (ParseFloat (digits (nat \<bar>t1 - t2\<bar>) @ ''.00'')) = Fin (of_int \<bar>t1 - t2\<bar>)"
    by simp
  show ?thesis by (simp only: a b c fst_conv snd_conv simp_thms)
qed

theorem block_time_diff_in_range_witness:
  "is_int64 1700000000 \<and> is_int64 1700000042 \<and>
   is_int64 (1700000000 + unixToInternal) \<and> is_int64 (1700000042 + unixToInternal) \<and>
   \<bar>1700000000 - 1700000042\<bar> \<le> (9223372036 :: int) \<and>
   blockTimeDiff 1700000000 1700000042 = (Fin 42, ''42.00'') \<and>
   blockTimeDiff 1700000042 1700000000 = (Fin 42, ''42.00'')"
proof -
  have h: "is_int64 1700000000" "is_int64 1700000042"
    "is_int64 (1700000000 + unixToInternal)" "is_int64 (1700000042 + unixToInternal)"
    "\<bar>1700000000 - 1700000042\<bar> \<le> (9223372036 :: int)"
    by (simp_all add: is_int64_def unixToInternal_def)
  have d: "digits 42 = ''42''" by (simp add: digits.simps digit_char_def)
  from block_time_diff_in_range [OF h] h d show ?thesis by simp
qed

text \<open>
  Block times ten thousand million seconds apart: the Duration saturates, and the
  differential is 9223372036.85 and not 10000000000.
\<close>

theorem far_block_times_saturate:
  "blockTimeDiff 0 10000000000 = (Fin (4835703278456013 / 524288), ''9223372036.85'') \<and>
   fst (blockTimeDiff 0 10000000000) \<noteq> Fin (of_int \<bar>0 - 10000000000\<bar>)"
proof -
  have "flt (Fin (- (4835703278458517 / 524288))) (Fin 0)" by simp
  then have "blockTimeDiff 0 10000000000 = (Fin (4835703278456013 / 524288), ''9223372036.85'')"
    by (simp only: blockTimeDiff_def Let_def far_sub far_seconds far_string far_parse
        if_True fneg.simps minus_minus fst_conv)
  then show ?thesis by simp
qed

end
